theory Spec2Isabelle
  imports Complex_Main "HOL-Library.Multiset"
begin

section \<open>Data model\<close>

text \<open>
  The cube engine of \<^verbatim>\<open>types.ts\<close> and \<^verbatim>\<open>components/RubiksCube.tsx\<close>.
  JavaScript numbers are modelled as real numbers: the arithmetic of the source is read
  exactly, without the rounding of IEEE doubles. \<^verbatim>\<open>Math.round\<close> is
  \<open>\<lfloor>x + 1/2\<rfloor>\<close>, which is \<^const>\<open>round\<close>.
\<close>

datatype axis = X | Y | Z

text \<open>The type \<^verbatim>\<open>1 | -1\<close> of \<^verbatim>\<open>Move.direction\<close>.\<close>

datatype direction = Pos1 | Neg1

fun dir_val :: "direction \<Rightarrow> real" where
  "dir_val Pos1 = 1"
| "dir_val Neg1 = - 1"

text \<open>\<^verbatim>\<open>direction * -1\<close>, cast back to \<^verbatim>\<open>1 | -1\<close>.\<close>

fun negate :: "direction \<Rightarrow> direction" where
  "negate Pos1 = Neg1"
| "negate Neg1 = Pos1"

record move =
  axis :: axis
  slice :: real
  direction :: direction

type_synonym vec3 = "real \<times> real \<times> real"

definition CUBE_GAP :: real where
  "CUBE_GAP = 2 / 100"

text \<open>
  A position and a rotation (Euler angles): the two fields that \<^verbatim>\<open>CubieData\<close>, a
  mesh and the pivot group all have.
\<close>

record object3d =
  position :: vec3
  rotation :: vec3

record CubieData = object3d +
  cubie_id :: nat
  initialPosition :: "int \<times> int \<times> int"

section \<open>Move notation translator\<close>

definition apostrophe :: char where
  "apostrophe = CHR 0x27"

text \<open>
  \<^verbatim>\<open>getMoveFromNotation\<close> of \<^verbatim>\<open>types.ts\<close>. \<^verbatim>\<open>notation.replace("'", "")\<close>
  removes the first apostrophe only, which is \<^const>\<open>remove1\<close>.
\<close>

definition getMoveFromNotation :: "string \<Rightarrow> move" where
  "getMoveFromNotation notation =
     (let isPrime = (apostrophe \<in> set notation);
          base = remove1 apostrophe notation;
          mv = (if base = ''R'' then \<lparr>axis = X, slice = 1, direction = Neg1\<rparr>
                else if base = ''L'' then \<lparr>axis = X, slice = - 1, direction = Pos1\<rparr>
                else if base = ''U'' then \<lparr>axis = Y, slice = 1, direction = Neg1\<rparr>
                else if base = ''D'' then \<lparr>axis = Y, slice = - 1, direction = Pos1\<rparr>
                else if base = ''F'' then \<lparr>axis = Z, slice = 1, direction = Neg1\<rparr>
                else if base = ''B'' then \<lparr>axis = Z, slice = - 1, direction = Pos1\<rparr>
                else if base = ''M'' then \<lparr>axis = X, slice = 0, direction = Pos1\<rparr>
                else if base = ''E'' then \<lparr>axis = Y, slice = 0, direction = Pos1\<rparr>
                else if base = ''S'' then \<lparr>axis = Z, slice = 0, direction = Neg1\<rparr>
                else \<lparr>axis = X, slice = 0, direction = Pos1\<rparr>)
      in if isPrime then mv\<lparr>direction := negate (direction mv)\<rparr> else mv)"

text \<open>
  The second copy of \<^verbatim>\<open>getMoveFromNotation\<close>, in the single-file bundle of the
  application: its \<^verbatim>\<open>switch\<close> has the six face cases only.
\<close>

definition getMoveFromNotation_bundle :: "string \<Rightarrow> move" where
  "getMoveFromNotation_bundle notation =
     (let isPrime = (apostrophe \<in> set notation);
          base = remove1 apostrophe notation;
          mv = (if base = ''R'' then \<lparr>axis = X, slice = 1, direction = Neg1\<rparr>
                else if base = ''L'' then \<lparr>axis = X, slice = - 1, direction = Pos1\<rparr>
                else if base = ''U'' then \<lparr>axis = Y, slice = 1, direction = Neg1\<rparr>
                else if base = ''D'' then \<lparr>axis = Y, slice = - 1, direction = Pos1\<rparr>
                else if base = ''F'' then \<lparr>axis = Z, slice = 1, direction = Neg1\<rparr>
                else if base = ''B'' then \<lparr>axis = Z, slice = - 1, direction = Pos1\<rparr>
                else \<lparr>axis = X, slice = 0, direction = Pos1\<rparr>)
      in if isPrime then mv\<lparr>direction := negate (direction mv)\<rparr> else mv)"

text \<open>The mapping table of the notation, as a list of rows.\<close>

definition notation_table :: "(string \<times> move) list" where
  "notation_table =
     [(''R'', \<lparr>axis = X, slice = 1, direction = Neg1\<rparr>),
      (''L'', \<lparr>axis = X, slice = - 1, direction = Pos1\<rparr>),
      (''U'', \<lparr>axis = Y, slice = 1, direction = Neg1\<rparr>),
      (''D'', \<lparr>axis = Y, slice = - 1, direction = Pos1\<rparr>),
      (''F'', \<lparr>axis = Z, slice = 1, direction = Neg1\<rparr>),
      (''B'', \<lparr>axis = Z, slice = - 1, direction = Pos1\<rparr>),
      (''M'', \<lparr>axis = X, slice = 0, direction = Pos1\<rparr>),
      (''E'', \<lparr>axis = Y, slice = 0, direction = Pos1\<rparr>),
      (''S'', \<lparr>axis = Z, slice = 0, direction = Neg1\<rparr>)]"

section \<open>Cubie registry\<close>

text \<open>
  The initialisation effect: three nested \<^verbatim>\<open>for\<close> loops over \<open>-1, 0, 1\<close> that push
  one record each and increment \<^verbatim>\<open>id\<close>. The loop state is the list built so far and
  the next id.
\<close>

definition push_cubie :: "int \<Rightarrow> int \<Rightarrow> int \<Rightarrow> CubieData list \<times> nat \<Rightarrow> CubieData list \<times> nat" where
  "push_cubie x y z st =
     (case st of (cs, i) \<Rightarrow>
        (cs @ [\<lparr>position = (of_int x * (1 + CUBE_GAP), of_int y * (1 + CUBE_GAP),
                            of_int z * (1 + CUBE_GAP)),
                rotation = (0, 0, 0),
                cubie_id = i,
                initialPosition = (x, y, z)\<rparr>], Suc i))"

definition loop_range :: "int list" where
  "loop_range = [- 1, 0, 1]"

definition initialCubies :: "CubieData list" where
  "initialCubies =
     fst (fold (\<lambda>x. fold (\<lambda>y. fold (\<lambda>z. push_cubie x y z) loop_range) loop_range)
            loop_range ([], 0))"

section \<open>Scene graph: rigid transforms and Euler angles\<close>

text \<open>
  The component keeps its cubies in the scene graph of the rendering library: every mesh
  has a local \<^verbatim>\<open>position\<close> and \<^verbatim>\<open>rotation\<close> (Euler angles, order XYZ)
  relative to its parent, and the calls \<^verbatim>\<open>getWorldPosition\<close> and \<^verbatim>\<open>attach\<close>
  read and re-parent it. The transforms that occur are rigid (a rotation and a
  translation, no scaling), so a transform is a rotation matrix with a translation
  vector. The matrix of an Euler triple and the Euler triple of a matrix follow the
  library's formulas for the order XYZ.
\<close>

type_synonym mat3 = "vec3 \<times> vec3 \<times> vec3"

type_synonym transform = "mat3 \<times> vec3"

fun axis_component :: "axis \<Rightarrow> vec3 \<Rightarrow> real" where
  "axis_component X (x, y, z) = x"
| "axis_component Y (x, y, z) = y"
| "axis_component Z (x, y, z) = z"

fun set_axis_component :: "axis \<Rightarrow> real \<Rightarrow> vec3 \<Rightarrow> vec3" where
  "set_axis_component X v (x, y, z) = (v, y, z)"
| "set_axis_component Y v (x, y, z) = (x, v, z)"
| "set_axis_component Z v (x, y, z) = (x, y, v)"

fun dot :: "vec3 \<Rightarrow> vec3 \<Rightarrow> real" where
  "dot (a, b, c) (x, y, z) = a * x + b * y + c * z"

fun vec_add :: "vec3 \<Rightarrow> vec3 \<Rightarrow> vec3" where
  "vec_add (a, b, c) (x, y, z) = (a + x, b + y, c + z)"

fun vec_neg :: "vec3 \<Rightarrow> vec3" where
  "vec_neg (x, y, z) = (- x, - y, - z)"

fun mat_vec :: "mat3 \<Rightarrow> vec3 \<Rightarrow> vec3" where
  "mat_vec (r1, r2, r3) v = (dot r1 v, dot r2 v, dot r3 v)"

fun transpose3 :: "mat3 \<Rightarrow> mat3" where
  "transpose3 ((a, b, c), (d, e, f), (g, h, i)) = ((a, d, g), (b, e, h), (c, f, i))"

fun mat_mul :: "mat3 \<Rightarrow> mat3 \<Rightarrow> mat3" where
  "mat_mul (r1, r2, r3) B =
     (case transpose3 B of (c1, c2, c3) \<Rightarrow>
        ((dot r1 c1, dot r1 c2, dot r1 c3),
         (dot r2 c1, dot r2 c2, dot r2 c3),
         (dot r3 c1, dot r3 c2, dot r3 c3)))"

text \<open>\<open>compose_tf A B\<close> applies \<open>B\<close> first, then \<open>A\<close>: the product of the two matrices.\<close>

fun compose_tf :: "transform \<Rightarrow> transform \<Rightarrow> transform" where
  "compose_tf (R1, t1) (R2, t2) = (mat_mul R1 R2, vec_add (mat_vec R1 t2) t1)"

text \<open>The inverse of a rigid transform: the rotation is inverted by transposing it.\<close>

fun inverse_tf :: "transform \<Rightarrow> transform" where
  "inverse_tf (R, t) = (transpose3 R, vec_neg (mat_vec (transpose3 R) t))"

text \<open>The rotation matrix of Euler angles in the order XYZ.\<close>

fun euler_matrix :: "vec3 \<Rightarrow> mat3" where
  "euler_matrix (x, y, z) =
     (let a = cos x; b = sin x; c = cos y; d = sin y; e = cos z; f = sin z;
          ae = a * e; af = a * f; be = b * e; bf = b * f
      in ((c * e, - c * f, d),
          (af + be * d, ae - bf * d, - b * c),
          (bf - ae * d, be + af * d, a * c)))"

text \<open>
  \<^verbatim>\<open>Math.atan2\<close> on real numbers. The real numbers have one zero: on the cut
  (\<open>y = 0\<close> and \<open>x < 0\<close>), where the program returns \<open>pi\<close> for a positive and
  \<open>-pi\<close> for a negative floating-point zero, this function returns \<open>pi\<close>. The two
  values are Euler angles of the same rotation, so the matrix of the angles read off a
  matrix does not depend on the side of the cut; what is stated below of the rotation of a
  mesh after a half turn is stated of its matrix, for meshes that hold either value.
\<close>

definition atan2 :: "real \<Rightarrow> real \<Rightarrow> real" where
  "atan2 y x =
     (if x > 0 then arctan (y / x)
      else if x < 0 then (if y \<ge> 0 then arctan (y / x) + pi else arctan (y / x) - pi)
      else if y > 0 then pi / 2
      else if y < 0 then - (pi / 2)
      else 0)"

definition clamp :: "real \<Rightarrow> real \<Rightarrow> real \<Rightarrow> real" where
  "clamp v lo hi = max lo (min hi v)"

text \<open>The Euler angles, order XYZ, of a rotation matrix.\<close>

fun euler_of_matrix :: "mat3 \<Rightarrow> vec3" where
  "euler_of_matrix ((m11, m12, m13), (m21, m22, m23), (m31, m32, m33)) =
     (if \<bar>m13\<bar> < 9999999 / 10000000
      then (atan2 (- m23) m33, arcsin (clamp m13 (- 1) 1), atan2 (- m12) m11)
      else (atan2 m32 m22, arcsin (clamp m13 (- 1) 1), 0))"

text \<open>
  A mesh is a child of the scene (at the identity; the group that holds the cubies at
  first is never transformed either, and is not told apart from the scene here) or of the
  pivot. The program moves a mesh from the group to the pivot and from there to the scene,
  never back to the group: what is stated below of a mesh after a move is stated of its
  position and rotation, not of its parent.
\<close>

datatype parent_node = Scene | Pivot

record mesh = object3d +
  parent :: parent_node

definition local_tf :: "'a object3d_scheme \<Rightarrow> transform" where
  "local_tf ob = (euler_matrix (rotation ob), position ob)"

definition identity_tf :: transform where
  "identity_tf = (((1, 0, 0), (0, 1, 0), (0, 0, 1)), (0, 0, 0))"

text \<open>The world transform of the node a mesh hangs on.\<close>

definition parent_tf :: "object3d option \<Rightarrow> parent_node \<Rightarrow> transform" where
  "parent_tf pv p =
     (case p of
        Scene \<Rightarrow> identity_tf
      | Pivot \<Rightarrow> (case pv of None \<Rightarrow> identity_tf | Some g \<Rightarrow> local_tf g))"

definition world_tf :: "object3d option \<Rightarrow> mesh \<Rightarrow> transform" where
  "world_tf pv m = compose_tf (parent_tf pv (parent m)) (local_tf m)"

definition getWorldPosition :: "object3d option \<Rightarrow> mesh \<Rightarrow> vec3" where
  "getWorldPosition pv m = snd (world_tf pv m)"

text \<open>
  \<^verbatim>\<open>target.attach(mesh)\<close>: the mesh becomes a child of \<open>target\<close> and keeps its world
  transform; its local position and rotation are read off the new local matrix.
\<close>

definition attach :: "object3d option \<Rightarrow> parent_node \<Rightarrow> mesh \<Rightarrow> mesh" where
  "attach pv target m =
     (case compose_tf (inverse_tf (parent_tf pv target)) (world_tf pv m) of
        (R, t) \<Rightarrow> m\<lparr>position := t, rotation := euler_of_matrix R, parent := target\<rparr>)"

section \<open>The component's state\<close>

record queued_move =
  qmove :: move
  speed :: real

text \<open>
  The mutable cells of the component. \<open>onMoveComplete_calls\<close> records the calls of
  the \<^verbatim>\<open>onMoveComplete\<close> callback, in order.
\<close>

record cube_state =
  cubieRefs :: "mesh option list"
  isAnimating :: bool
  moveQueue :: "queued_move list"
  currentMove :: "queued_move option"
  currentAngle :: real
  pivotRef :: "object3d option"
  activeCubieIndices :: "nat list"
  orbitEnabled :: bool
  dragStart :: "(real \<times> real) option"
  intersectedFaceNormal :: "vec3 option"
  intersectedCubieIndex :: int
  onMoveComplete_calls :: "move list"

definition addMove :: "move \<Rightarrow> real \<Rightarrow> cube_state \<Rightarrow> cube_state" where
  "addMove mv speedMultiplier s =
     s\<lparr>moveQueue := moveQueue s @ [\<lparr>qmove = mv, speed = speedMultiplier\<rparr>]\<rparr>"

definition addMoves :: "move list \<Rightarrow> real \<Rightarrow> cube_state \<Rightarrow> cube_state" where
  "addMoves mvs speedMultiplier s =
     fold (\<lambda>mv st. st\<lparr>moveQueue := moveQueue st @ [\<lparr>qmove = mv, speed = speedMultiplier\<rparr>]\<rparr>)
       mvs s"

text \<open>Reading \<^verbatim>\<open>cubieRefs.current[idx]\<close>: out of range it is \<^verbatim>\<open>undefined\<close>.\<close>

definition mesh_at :: "mesh option list \<Rightarrow> nat \<Rightarrow> mesh option" where
  "mesh_at refs idx = (if idx < length refs then refs ! idx else None)"

section \<open>Slice selector\<close>

definition epsilon :: real where
  "epsilon = 1 / 10"

definition in_slice :: "object3d option \<Rightarrow> axis \<Rightarrow> real \<Rightarrow> mesh \<Rightarrow> bool" where
  "in_slice pv ax sliceIndex m =
     (let val = axis_component ax (getWorldPosition pv m);
          normalizedVal = val / (1 + CUBE_GAP)
      in \<bar>normalizedVal - sliceIndex\<bar> < epsilon)"

definition getCubiesInSlice :: "cube_state \<Rightarrow> axis \<Rightarrow> real \<Rightarrow> nat list" where
  "getCubiesInSlice s ax sliceIndex =
     map fst (filter (\<lambda>(index, r). case r of None \<Rightarrow> False
                                     | Some m \<Rightarrow> in_slice (pivotRef s) ax sliceIndex m)
                (enumerate 0 (cubieRefs s)))"

section \<open>Move execution state machine\<close>

definition startMove :: "move \<Rightarrow> real \<Rightarrow> cube_state \<Rightarrow> cube_state" where
  "startMove mv sp s =
     (case pivotRef s of
        None \<Rightarrow> s
      | Some pv \<Rightarrow>
          let indices = getCubiesInSlice s (axis mv) (slice mv);
              pv' = pv\<lparr>position := (0, 0, 0), rotation := (0, 0, 0)\<rparr>;
              s1 = s\<lparr>isAnimating := True,
                     currentMove := Some \<lparr>qmove = mv, speed = sp\<rparr>,
                     currentAngle := 0,
                     activeCubieIndices := indices,
                     pivotRef := Some pv'\<rparr>
          in fold (\<lambda>idx st.
                     case mesh_at (cubieRefs st) idx of
                       None \<Rightarrow> st
                     | Some m \<Rightarrow>
                         st\<lparr>cubieRefs := (cubieRefs st)[idx := Some (attach (pivotRef st) Pivot m)]\<rparr>)
               indices s1)"

definition snap :: "real \<Rightarrow> real \<Rightarrow> real" where
  "snap val grid = of_int (round (val / grid)) * grid"

text \<open>The two \<^verbatim>\<open>set\<close> calls of \<^verbatim>\<open>finishMove\<close> on a mesh.\<close>

definition snap_mesh :: "mesh \<Rightarrow> mesh" where
  "snap_mesh m =
     (case position m of (px, py, pz) \<Rightarrow>
      case rotation m of (rx, ry, rz) \<Rightarrow>
        m\<lparr>position := (snap px (1 + CUBE_GAP), snap py (1 + CUBE_GAP), snap pz (1 + CUBE_GAP)),
          rotation := (of_int (round (rx / (pi / 2))) * (pi / 2),
                       of_int (round (ry / (pi / 2))) * (pi / 2),
                       of_int (round (rz / (pi / 2))) * (pi / 2))\<rparr>)"

definition finishMove :: "cube_state \<Rightarrow> cube_state" where
  "finishMove s =
     (case pivotRef s of
        None \<Rightarrow> s
      | Some pv \<Rightarrow>
         (case currentMove s of
            None \<Rightarrow> s
          | Some cm \<Rightarrow>
              let moveObj = qmove cm;
                  pv1 = pv\<lparr>rotation := set_axis_component (axis moveObj)
                                         ((pi / 2) * dir_val (direction moveObj)) (rotation pv)\<rparr>;
                  s1 = s\<lparr>pivotRef := Some pv1\<rparr>;
                  s2 = fold (\<lambda>idx st.
                               case mesh_at (cubieRefs st) idx of
                                 None \<Rightarrow> st
                               | Some m \<Rightarrow>
                                   st\<lparr>cubieRefs :=
                                        (cubieRefs st)[idx := Some (snap_mesh (attach (pivotRef st) Scene m))]\<rparr>)
                         (activeCubieIndices s1) s1
              in s2\<lparr>pivotRef := Some (pv1\<lparr>rotation := (0, 0, 0)\<rparr>),
                    onMoveComplete_calls := onMoveComplete_calls s2 @ [moveObj],
                    isAnimating := False,
                    currentMove := None,
                    activeCubieIndices := []\<rparr>))"

text \<open>The per-frame callback; \<open>delta\<close> is the elapsed time of the frame.\<close>

definition tick_step :: "real \<Rightarrow> queued_move \<Rightarrow> real \<Rightarrow> real" where
  "tick_step delta cm angle =
     (let baseSpeed = 5 * delta;
          speed' = baseSpeed * speed cm;
          targetAngle = (pi / 2) * dir_val (direction (qmove cm));
          step = (if targetAngle > 0 then speed' else - speed');
          remaining = targetAngle - angle
      in if \<bar>remaining\<bar> < \<bar>step\<bar> then remaining else step)"

definition useFrame :: "real \<Rightarrow> cube_state \<Rightarrow> cube_state" where
  "useFrame delta s =
     (case (if isAnimating s then currentMove s else None, pivotRef s) of
        (Some cm, Some pv) \<Rightarrow>
          let step = tick_step delta cm (currentAngle s);
              ax = axis (qmove cm);
              s1 = s\<lparr>pivotRef := Some (pv\<lparr>rotation :=
                         set_axis_component ax (axis_component ax (rotation pv) + step) (rotation pv)\<rparr>),
                     currentAngle := currentAngle s + step\<rparr>
          in if \<bar>currentAngle s1\<bar> \<ge> pi / 2 - 1 / 1000 then finishMove s1 else s1
      | _ \<Rightarrow>
          (if moveQueue s \<noteq> [] \<and> \<not> isAnimating s
           then (case moveQueue s of
                   [] \<Rightarrow> s
                 | next # rest \<Rightarrow> startMove (qmove next) (speed next) (s\<lparr>moveQueue := rest\<rparr>))
           else s))"

section \<open>Gesture interpreter\<close>

definition triggerMoveFromGesture :: "real \<Rightarrow> real \<Rightarrow> cube_state \<Rightarrow> cube_state" where
  "triggerMoveFromGesture dx dy s =
     (case intersectedFaceNormal s of
        None \<Rightarrow> s
      | Some (nx, ny, nz) \<Rightarrow>
         (case (if 0 \<le> intersectedCubieIndex s
                then mesh_at (cubieRefs s) (nat (intersectedCubieIndex s)) else None) of
            None \<Rightarrow> s
          | Some m \<Rightarrow>
              let worldPos = getWorldPosition (pivotRef s) m;
                  isHorizontal = (\<bar>dx\<bar> > \<bar>dy\<bar>);
                  slice_of = (\<lambda>ax. of_int (round (axis_component ax worldPos / (1 + CUBE_GAP))));
                  flip = (\<lambda>c d. if c < 0 then negate d else d);
                  mv =
                    (if \<bar>nx\<bar> > 1 / 2 then
                       (if isHorizontal
                        then \<lparr>axis = Y, slice = slice_of Y,
                              direction = flip nx (if dx > 0 then Neg1 else Pos1)\<rparr>
                        else \<lparr>axis = Z, slice = slice_of Z,
                              direction = flip nx (if dy > 0 then Neg1 else Pos1)\<rparr>)
                     else if \<bar>ny\<bar> > 1 / 2 then
                       (if isHorizontal
                        then \<lparr>axis = Z, slice = slice_of Z,
                              direction = flip ny (if dx > 0 then Neg1 else Pos1)\<rparr>
                        else \<lparr>axis = X, slice = slice_of X,
                              direction = flip ny (if dy > 0 then Neg1 else Pos1)\<rparr>)
                     else
                       (if isHorizontal
                        then \<lparr>axis = Y, slice = slice_of Y,
                              direction = flip nz (if dx > 0 then Pos1 else Neg1)\<rparr>
                        else \<lparr>axis = X, slice = slice_of X,
                              direction = flip nz (if dy > 0 then Pos1 else Neg1)\<rparr>))
              in s\<lparr>moveQueue := moveQueue s @ [\<lparr>qmove = mv, speed = 1\<rparr>]\<rparr>))"

text \<open>A pointer-move event at the screen position \<open>(clientX, clientY)\<close>.\<close>

definition handlePointerMove :: "real \<Rightarrow> real \<Rightarrow> cube_state \<Rightarrow> cube_state" where
  "handlePointerMove clientX clientY s =
     (case dragStart s of
        None \<Rightarrow> s
      | Some (sx, sy) \<Rightarrow>
          if intersectedCubieIndex s = - 1 \<or> intersectedFaceNormal s = None then s
          else
            let dx = clientX - sx; dy = clientY - sy
            in if sqrt (dx * dx + dy * dy) < 15 then s
               else (triggerMoveFromGesture dx dy s)
                      \<lparr>dragStart := None, intersectedFaceNormal := None,
                       intersectedCubieIndex := - 1, orbitEnabled := True\<rparr>)"

definition handlePointerUp :: "cube_state \<Rightarrow> cube_state" where
  "handlePointerUp s =
     s\<lparr>orbitEnabled := True, dragStart := None, intersectedFaceNormal := None,
       intersectedCubieIndex := - 1\<rparr>"

text \<open>
  A pointer-down event: \<open>hit\<close> is the index in \<open>cubieRefs\<close> of the cubie mesh under
  the pointer (\<open>None\<close> when the object hit is not a cubie), \<open>faceNormal\<close> the normal of
  the face hit, in the mesh's own frame.
\<close>

record pointer_event =
  hit :: "nat option"
  faceNormal :: vec3
  clientX :: real
  clientY :: real

definition normalize :: "vec3 \<Rightarrow> vec3" where
  "normalize v =
     (let len = sqrt (dot v v); l = (if len = 0 then 1 else len)
      in case v of (x, y, z) \<Rightarrow> (x / l, y / l, z / l))"

definition transformDirection :: "transform \<Rightarrow> vec3 \<Rightarrow> vec3" where
  "transformDirection tf v = normalize (mat_vec (fst tf) v)"

definition round_vec :: "vec3 \<Rightarrow> vec3" where
  "round_vec v = (case v of (x, y, z) \<Rightarrow> (of_int (round x), of_int (round y), of_int (round z)))"

definition handlePointerDown :: "pointer_event \<Rightarrow> cube_state \<Rightarrow> cube_state" where
  "handlePointerDown e s =
     (if isAnimating s \<or> moveQueue s \<noteq> [] then s
      else case hit e of
             None \<Rightarrow> s
           | Some idx \<Rightarrow>
              (case mesh_at (cubieRefs s) idx of
                 None \<Rightarrow> s
               | Some m \<Rightarrow>
                   s\<lparr>orbitEnabled := False,
                     intersectedFaceNormal :=
                       Some (round_vec (transformDirection (world_tf (pivotRef s) m) (faceNormal e))),
                     intersectedCubieIndex := int idx,
                     dragStart := Some (clientX e, clientY e)\<rparr>))"

text \<open>
  The face/drag table as the specification words it: the face is the axis the normal is
  most aligned with, and a horizontal or vertical drag on that face selects the rotation
  axis.
\<close>

definition face_axis :: "vec3 \<Rightarrow> axis" where
  "face_axis n = (case n of (nx, ny, nz) \<Rightarrow>
     if \<bar>nx\<bar> > 1 / 2 then X else if \<bar>ny\<bar> > 1 / 2 then Y else Z)"

fun gesture_axis_table :: "axis \<Rightarrow> bool \<Rightarrow> axis" where
  "gesture_axis_table X True = Y"
| "gesture_axis_table X False = Z"
| "gesture_axis_table Y True = Z"
| "gesture_axis_table Y False = X"
| "gesture_axis_table Z True = Y"
| "gesture_axis_table Z False = X"

section \<open>The mounted component and its canonical states\<close>

text \<open>
  The state once the component is mounted and the initialisation effect has run: one
  mesh per record of \<open>initialCubies\<close>, in the same order, the pivot group in place,
  nothing queued.
\<close>

definition initial_state :: cube_state where
  "initial_state =
     \<lparr>cubieRefs = map (\<lambda>c. Some \<lparr>position = position c, rotation = rotation c, parent = Scene\<rparr>)
                    initialCubies,
      isAnimating = False,
      moveQueue = [],
      currentMove = None,
      currentAngle = 0,
      pivotRef = Some \<lparr>position = (0, 0, 0), rotation = (0, 0, 0)\<rparr>,
      activeCubieIndices = [],
      orbitEnabled = True,
      dragStart = None,
      intersectedFaceNormal = None,
      intersectedCubieIndex = - 1,
      onMoveComplete_calls = []\<rparr>"

text \<open>The 27 points of the grid, with the spacing \<open>1 + CUBE_GAP\<close>.\<close>

definition lattice_positions :: "vec3 list" where
  "lattice_positions =
     [(x * (1 + CUBE_GAP), y * (1 + CUBE_GAP), z * (1 + CUBE_GAP)).
        x \<leftarrow> [- 1, 0, 1], y \<leftarrow> [- 1, 0, 1], z \<leftarrow> [- 1, 0, 1]]"

definition world_positions :: "cube_state \<Rightarrow> vec3 option list" where
  "world_positions s = map (map_option (getWorldPosition (pivotRef s))) (cubieRefs s)"

text \<open>
  A cube in canonical (snapped) state: every mesh is there and the world positions are
  the 27 grid points, one cubie on each.
\<close>

definition canonical_state :: "cube_state \<Rightarrow> bool" where
  "canonical_state s \<longleftrightarrow>
     distinct (world_positions s) \<and> set (world_positions s) = Some ` set lattice_positions"

text \<open>A pointer-down event on the front face of the cubie at index \<open>idx\<close>.\<close>

definition front_grab :: "nat \<Rightarrow> pointer_event" where
  "front_grab idx = \<lparr>hit = Some idx, faceNormal = (0, 0, 1), clientX = 100, clientY = 100\<rparr>"

section \<open>Events and runs of the component\<close>

text \<open>
  Both loops over the active indices write \<open>cubieRefs\<close> only: each replaces the mesh
  at an index by its re-parented copy.
\<close>

definition reparent_all :: "(mesh \<Rightarrow> mesh) \<Rightarrow> nat list \<Rightarrow> mesh option list \<Rightarrow> mesh option list" where
  "reparent_all f idxs refs =
     fold (\<lambda>idx rs. case mesh_at rs idx of None \<Rightarrow> rs | Some m \<Rightarrow> rs[idx := Some (f m)]) idxs refs"

text \<open>
  What reaches the component from outside: the two calls of its imperative handle, the
  per-frame callback and the three pointer handlers.
\<close>

datatype event =
    AddMove move real
  | AddMoves "move list" real
  | Frame real
  | PointerDown pointer_event
  | PointerMove real real
  | PointerUp

fun apply_event :: "event \<Rightarrow> cube_state \<Rightarrow> cube_state" where
  "apply_event (AddMove mv sp) s = addMove mv sp s"
| "apply_event (AddMoves mvs sp) s = addMoves mvs sp s"
| "apply_event (Frame delta) s = useFrame delta s"
| "apply_event (PointerDown e) s = handlePointerDown e s"
| "apply_event (PointerMove x y) s = handlePointerMove x y s"
| "apply_event PointerUp s = handlePointerUp s"

definition run :: "event list \<Rightarrow> cube_state \<Rightarrow> cube_state" where
  "run evs s = fold apply_event evs s"

text \<open>Speed multipliers and frame times are positive.\<close>

fun valid_event :: "event \<Rightarrow> bool" where
  "valid_event (AddMove mv sp) = (0 < sp)"
| "valid_event (AddMoves mvs sp) = (0 < sp)"
| "valid_event (Frame delta) = (0 < delta)"
| "valid_event _ = True"

text \<open>The angle lies between 0 and the quarter turn of the move, on the move's side.\<close>

definition toward_target :: "queued_move \<Rightarrow> real \<Rightarrow> bool" where
  "toward_target cm a \<longleftrightarrow>
     0 \<le> dir_val (direction (qmove cm)) * a \<and> dir_val (direction (qmove cm)) * a \<le> pi / 2"

definition angle_inv :: "cube_state \<Rightarrow> bool" where
  "angle_inv s \<longleftrightarrow>
     list_all (\<lambda>q. 0 < speed q) (moveQueue s)
     \<and> (case currentMove s of None \<Rightarrow> True
         | Some cm \<Rightarrow> 0 < speed cm \<and> toward_target cm (currentAngle s))
     \<and> \<bar>currentAngle s\<bar> \<le> pi / 2"

section \<open>Completion order\<close>

text \<open>
  The move in flight, and the line of all moves the component has taken in: completed
  ones (in the order of the \<^verbatim>\<open>onMoveComplete\<close> calls), the one in flight, the queued
  ones.
\<close>

definition in_flight :: "cube_state \<Rightarrow> move list" where
  "in_flight s = (case currentMove s of None \<Rightarrow> [] | Some cm \<Rightarrow> [qmove cm])"

definition timeline :: "cube_state \<Rightarrow> move list" where
  "timeline s = onMoveComplete_calls s @ in_flight s @ map qmove (moveQueue s)"

text \<open>
  The moves an event appends to the queue, and the moves a list of events appends, in
  order: the enqueue order of a run.
\<close>

fun added :: "event \<Rightarrow> cube_state \<Rightarrow> move list" where
  "added (AddMove mv sp) s = [mv]"
| "added (AddMoves mvs sp) s = mvs"
| "added (PointerMove x y) s =
     map qmove (drop (length (moveQueue s)) (moveQueue (handlePointerMove x y s)))"
| "added _ s = []"

fun enqueued :: "event list \<Rightarrow> cube_state \<Rightarrow> move list" where
  "enqueued [] s = []"
| "enqueued (e # es) s = added e s @ enqueued es (apply_event e s)"

definition machine_inv :: "cube_state \<Rightarrow> bool" where
  "machine_inv s \<longleftrightarrow> (isAnimating s \<longleftrightarrow> currentMove s \<noteq> None) \<and> pivotRef s \<noteq> None"

text \<open>\<open>n\<close> frames of the same duration.\<close>

definition frames :: "nat \<Rightarrow> real \<Rightarrow> cube_state \<Rightarrow> cube_state" where
  "frames n delta s = (useFrame delta ^^ n) s"


text \<open>
  The net effect of a list of queued moves, each started and finished in turn, without
  the frames in between.
\<close>

fun play :: "queued_move list \<Rightarrow> cube_state \<Rightarrow> cube_state" where
  "play [] s = s"
| "play (q # rest) s = play rest (finishMove (startMove (qmove q) (speed q) s))"

section \<open>Moves on the grid and their inverses\<close>

text \<open>
  The 24 rotation matrices that map the coordinate axes to coordinate axes: the
  orientations a cubie can have on the grid.
\<close>

definition rotations24 :: "mat3 list" where
  "rotations24 =
     [((1, 0, 0), (0, 1, 0), (0, 0, 1)),
      ((1, 0, 0), (0, 0, - 1), (0, 1, 0)),
      ((1, 0, 0), (0, 0, 1), (0, - 1, 0)),
      ((0, 0, 1), (0, 1, 0), (- 1, 0, 0)),
      ((0, 0, - 1), (0, 1, 0), (1, 0, 0)),
      ((0, - 1, 0), (1, 0, 0), (0, 0, 1)),
      ((0, 1, 0), (- 1, 0, 0), (0, 0, 1)),
      ((1, 0, 0), (0, - 1, 0), (0, 0, - 1)),
      ((0, 1, 0), (0, 0, - 1), (- 1, 0, 0)),
      ((0, - 1, 0), (0, 0, - 1), (1, 0, 0)),
      ((0, 0, 1), (1, 0, 0), (0, 1, 0)),
      ((0, 0, - 1), (- 1, 0, 0), (0, 1, 0)),
      ((0, - 1, 0), (0, 0, 1), (- 1, 0, 0)),
      ((0, 1, 0), (0, 0, 1), (1, 0, 0)),
      ((0, 0, - 1), (1, 0, 0), (0, - 1, 0)),
      ((0, 0, 1), (- 1, 0, 0), (0, - 1, 0)),
      ((- 1, 0, 0), (0, 1, 0), (0, 0, - 1)),
      ((- 1, 0, 0), (0, - 1, 0), (0, 0, 1)),
      ((0, 0, - 1), (0, - 1, 0), (- 1, 0, 0)),
      ((0, 0, 1), (0, - 1, 0), (1, 0, 0)),
      ((0, 1, 0), (1, 0, 0), (0, 0, - 1)),
      ((0, - 1, 0), (- 1, 0, 0), (0, 0, - 1)),
      ((- 1, 0, 0), (0, 0, - 1), (0, - 1, 0)),
      ((- 1, 0, 0), (0, 0, 1), (0, 1, 0))]"

text \<open>The matrix of the pivot at the end of a move: a quarter turn about the move's axis.\<close>

definition quarter_turn :: "axis \<Rightarrow> direction \<Rightarrow> mat3" where
  "quarter_turn ax d = euler_matrix (set_axis_component ax ((pi / 2) * dir_val d) (0, 0, 0))"

text \<open>The rotation part of the snapping of \<open>snap_mesh\<close>.\<close>

definition snap_rotation :: "vec3 \<Rightarrow> vec3" where
  "snap_rotation r = (case r of (rx, ry, rz) \<Rightarrow>
     (of_int (round (rx / (pi / 2))) * (pi / 2),
      of_int (round (ry / (pi / 2))) * (pi / 2),
      of_int (round (rz / (pi / 2))) * (pi / 2)))"

text \<open>
  A mesh at rest: a child of the scene, its position on the grid and its Euler angles
  multiples of a quarter turn (snapping leaves both unchanged), the angles within the
  ranges of \<^verbatim>\<open>Math.atan2\<close> and \<^verbatim>\<open>Math.asin\<close>, and its rotation matrix one of the
  24 orientations. The Euler triple itself is not fixed by the orientation: a half turn
  about x may be held as \<open>pi\<close> or as \<open>-pi\<close>, and both are at rest.
\<close>

definition on_grid :: "vec3 \<Rightarrow> bool" where
  "on_grid p \<longleftrightarrow> (case p of (x, y, z) \<Rightarrow>
     snap x (1 + CUBE_GAP) = x \<and> snap y (1 + CUBE_GAP) = y \<and> snap z (1 + CUBE_GAP) = z)"

definition in_range :: "vec3 \<Rightarrow> bool" where
  "in_range r \<longleftrightarrow> (case r of (rx, ry, rz) \<Rightarrow>
     \<bar>rx\<bar> \<le> pi \<and> \<bar>ry\<bar> \<le> pi / 2 \<and> \<bar>rz\<bar> \<le> pi)"

definition rest_mesh :: "mesh \<Rightarrow> bool" where
  "rest_mesh m \<longleftrightarrow>
     parent m = Scene \<and> on_grid (position m) \<and> snap_rotation (rotation m) = rotation m
     \<and> in_range (rotation m) \<and> euler_matrix (rotation m) \<in> set rotations24"

definition rest_refs :: "mesh option list \<Rightarrow> bool" where
  "rest_refs refs = list_all (\<lambda>r. case r of None \<Rightarrow> True | Some m \<Rightarrow> rest_mesh m) refs"

text \<open>
  The pose of a mesh: its position and its orientation as a rotation matrix. The placement
  of a mesh: its position and its Euler triple.
\<close>

definition pose :: "mesh option \<Rightarrow> (vec3 \<times> mat3) option" where
  "pose r = map_option (\<lambda>m. (position m, euler_matrix (rotation m))) r"

definition placement :: "mesh option \<Rightarrow> (vec3 \<times> vec3) option" where
  "placement r = map_option (\<lambda>m. (position m, rotation m)) r"

text \<open>
  What a move does to a mesh of its slice, from \<open>startMove\<close> to \<open>finishMove\<close>: attached
  to the zeroed pivot, re-attached to the scene under the pivot turned by a quarter, then
  snapped; and what it does to all meshes.
\<close>

definition turn_mesh :: "move \<Rightarrow> mesh \<Rightarrow> mesh" where
  "turn_mesh mv m =
     snap_mesh
       (attach (Some \<lparr>position = (0, 0, 0),
                       rotation = set_axis_component (axis mv)
                                    ((pi / 2) * dir_val (direction mv)) (0, 0, 0)\<rparr>) Scene
          (attach (Some \<lparr>position = (0, 0, 0), rotation = (0, 0, 0)\<rparr>) Pivot m))"

definition turn_ref :: "move \<Rightarrow> mesh option \<Rightarrow> mesh option" where
  "turn_ref mv r =
     map_option (\<lambda>m. if in_slice None (axis mv) (slice mv) m then turn_mesh mv m else m) r"

definition turn_all :: "move \<Rightarrow> mesh option list \<Rightarrow> mesh option list" where
  "turn_all mv refs = map (turn_ref mv) refs"

text \<open>
  The list that \<^verbatim>\<open>handleReset\<close> of the application enqueues: the history reversed,
  every direction negated.
\<close>

definition inverse_move :: "move \<Rightarrow> move" where
  "inverse_move m = m\<lparr>direction := negate (direction m)\<rparr>"

definition inverse_moves :: "move list \<Rightarrow> move list" where
  "inverse_moves history = map inverse_move (rev history)"

text \<open>
  The cube after a half turn of the right layer (the move R twice), with the half turn
  held as the Euler angle \<open>-pi\<close> about x: the value \<^verbatim>\<open>Math.atan2\<close> returns at its cut
  when the zero it is given is negative.
\<close>

definition half_turned_right :: cube_state where
  "half_turned_right =
     initial_state
       \<lparr>cubieRefs :=
          map (map_option
                 (\<lambda>m. case position m of
                         (x, y, z) \<Rightarrow>
                           if x = 1 + CUBE_GAP
                           then m\<lparr>position := (x, - y, - z), rotation := (- pi, 0, 0)\<rparr>
                           else m))
            (cubieRefs initial_state),
        currentAngle := - (pi / 2),
        onMoveComplete_calls :=
          [\<lparr>axis = X, slice = 1, direction = Neg1\<rparr>, \<lparr>axis = X, slice = 1, direction = Neg1\<rparr>]\<rparr>"

section \<open>Properties of the notation translator\<close>

lemma getMoveFromNotation_table:
  "map (getMoveFromNotation \<circ> fst) notation_table = map snd notation_table"
  by (simp add: notation_table_def getMoveFromNotation_def apostrophe_def)

lemma getMoveFromNotation_primed:
  "map (\<lambda>(t, m). getMoveFromNotation (t @ [apostrophe])) notation_table
     = map (\<lambda>(t, m). m\<lparr>direction := negate (direction m)\<rparr>) notation_table"
  by (simp add: notation_table_def getMoveFromNotation_def apostrophe_def)

lemma getMoveFromNotation_fallback:
  "remove1 apostrophe t \<notin> fst ` set notation_table \<Longrightarrow>
   getMoveFromNotation t =
     \<lparr>axis = X, slice = 0,
      direction = (if apostrophe \<in> set t then Neg1 else Pos1)\<rparr>"
  by (simp add: notation_table_def getMoveFromNotation_def)

text \<open>
  C2. The two copies of the translator disagree on the middle-slice tokens: the copy of
  \<^verbatim>\<open>types.ts\<close> returns the row of the mapping table for \<open>E\<close> and \<open>S\<close>, the copy
  in the bundle falls back to the default move \<open>(x, 0, +1)\<close> for both.
\<close>

theorem getMoveFromNotation_bundle_middle_slices:
  "getMoveFromNotation_bundle ''E'' = \<lparr>axis = X, slice = 0, direction = Pos1\<rparr>
   \<and> getMoveFromNotation ''E'' = \<lparr>axis = Y, slice = 0, direction = Pos1\<rparr>
   \<and> getMoveFromNotation_bundle ''S'' = \<lparr>axis = X, slice = 0, direction = Pos1\<rparr>
   \<and> getMoveFromNotation ''S'' = \<lparr>axis = Z, slice = 0, direction = Neg1\<rparr>"
  by (simp add: getMoveFromNotation_bundle_def getMoveFromNotation_def apostrophe_def)

section \<open>Properties of the cubie registry\<close>

lemma initialCubies_ids: "map cubie_id initialCubies = [0..<27]"
  by (simp add: initialCubies_def loop_range_def push_cubie_def upt_rec)

lemma initialCubies_initialPosition:
  "map initialPosition initialCubies =
     [(x, y, z). x \<leftarrow> [- 1, 0, 1], y \<leftarrow> [- 1, 0, 1], z \<leftarrow> [- 1, 0, 1]]"
  by (simp add: initialCubies_def loop_range_def push_cubie_def)

lemma initialCubies_position:
  "map position initialCubies =
     map (\<lambda>(x, y, z). (of_int x * (1 + CUBE_GAP), of_int y * (1 + CUBE_GAP),
                        of_int z * (1 + CUBE_GAP)))
       (map initialPosition initialCubies)"
  by (simp add: initialCubies_def loop_range_def push_cubie_def)

lemma initialCubies_rotation: "map rotation initialCubies = replicate 27 (0, 0, 0)"
  by (simp add: initialCubies_def loop_range_def push_cubie_def eval_nat_numeral)

lemma initialCubies_distinct: "distinct (map initialPosition initialCubies)"
  by (simp add: initialCubies_def loop_range_def push_cubie_def)

lemma initialCubies_set:
  "set (map initialPosition initialCubies) = {- 1, 0, 1} \<times> {- 1, 0, 1} \<times> {- 1, 0, 1}"
  unfolding initialCubies_initialPosition by auto

text \<open>
  C5. Initialisation produces 27 records. Their ids are 0, 1, ..., 26 in the order of the
  list, the initial positions run through \<open>{-1, 0, 1}\<^sup>3\<close> with x outermost and z innermost,
  each position is the initial position scaled by \<open>1 + CUBE_GAP\<close>, each rotation is zero,
  and the initial positions are pairwise different and fill the whole of \<open>{-1, 0, 1}\<^sup>3\<close>.
\<close>

theorem initialCubies_spec:
  "length initialCubies = 27
   \<and> map cubie_id initialCubies = [0..<27]
   \<and> map initialPosition initialCubies =
       [(x, y, z). x \<leftarrow> [- 1, 0, 1], y \<leftarrow> [- 1, 0, 1], z \<leftarrow> [- 1, 0, 1]]
   \<and> map position initialCubies =
       map (\<lambda>(x, y, z). (of_int x * (1 + CUBE_GAP), of_int y * (1 + CUBE_GAP),
                          of_int z * (1 + CUBE_GAP)))
         (map initialPosition initialCubies)
   \<and> map rotation initialCubies = replicate 27 (0, 0, 0)
   \<and> distinct (map initialPosition initialCubies)
   \<and> set (map initialPosition initialCubies) = {- 1, 0, 1} \<times> {- 1, 0, 1} \<times> {- 1, 0, 1}"
proof -
  have "length (map cubie_id initialCubies) = 27"
    unfolding initialCubies_ids by simp
  then have "length initialCubies = 27" by simp
  then show ?thesis
    using initialCubies_ids initialCubies_initialPosition initialCubies_position
      initialCubies_rotation initialCubies_distinct initialCubies_set
    by blast
qed

section \<open>Properties of the slice selector\<close>

lemma filter_enumerate_length:
  "length (filter (\<lambda>(i, r). Q r) (enumerate n xs)) = length (filter Q xs)"
  by (induction xs arbitrary: n) auto

lemma getCubiesInSlice_length:
  "length (getCubiesInSlice s ax k) =
     length (filter (\<lambda>p. case p of None \<Rightarrow> False
                          | Some v \<Rightarrow> \<bar>axis_component ax v / (1 + CUBE_GAP) - k\<bar> < epsilon)
               (world_positions s))"
proof -
  have "length (getCubiesInSlice s ax k) =
      length (filter (\<lambda>r. case r of None \<Rightarrow> False | Some m \<Rightarrow> in_slice (pivotRef s) ax k m)
                (cubieRefs s))"
    unfolding getCubiesInSlice_def length_map by (rule filter_enumerate_length)
  also have "\<dots> = length (filter (\<lambda>p. case p of None \<Rightarrow> False
                          | Some v \<Rightarrow> \<bar>axis_component ax v / (1 + CUBE_GAP) - k\<bar> < epsilon)
               (world_positions s))"
    unfolding world_positions_def filter_map length_map
    by (rule arg_cong [where f = length], rule filter_cong)
       (auto simp: in_slice_def split: option.splits)
  finally show ?thesis .
qed

lemma getCubiesInSlice_distinct: "distinct (getCubiesInSlice s ax k)"
  unfolding getCubiesInSlice_def
  by (rule distinct_map_filter) (simp add: distinct_enumerate)

lemma getCubiesInSlice_mem:
  "i \<in> set (getCubiesInSlice s ax k) \<longleftrightarrow>
     (\<exists>m. mesh_at (cubieRefs s) i = Some m \<and>
          \<bar>axis_component ax (getWorldPosition (pivotRef s) m) / (1 + CUBE_GAP) - k\<bar> < 1 / 10)"
  by (auto simp: getCubiesInSlice_def in_set_enumerate_eq mesh_at_def in_slice_def epsilon_def
      image_iff split: option.splits)

lemma lattice_count:
  "k \<in> {- 1, 0, 1} \<Longrightarrow>
   length (filter (\<lambda>p. case p of None \<Rightarrow> False
                          | Some v \<Rightarrow> \<bar>axis_component ax v / (1 + CUBE_GAP) - k\<bar> < epsilon)
               (map Some lattice_positions)) = 9"
  by (cases ax) (auto simp: lattice_positions_def CUBE_GAP_def epsilon_def)

lemma canonical_count:
  assumes "canonical_state s"
  shows "length (filter Q (world_positions s)) = length (filter Q (map Some lattice_positions))"
proof -
  have d: "distinct (map Some lattice_positions)"
    by (simp add: distinct_map lattice_positions_def CUBE_GAP_def)
  have "mset (world_positions s) = mset (map Some lattice_positions)"
    using assms d unfolding canonical_state_def
    by (subst set_eq_iff_mset_eq_distinct [symmetric]) auto
  then have "mset (filter Q (world_positions s)) = mset (filter Q (map Some lattice_positions))"
    by simp
  then show ?thesis by (metis size_mset)
qed

lemma canonical_initial: "canonical_state initial_state"
  by (simp add: canonical_state_def world_positions_def initial_state_def initialCubies_def
      loop_range_def push_cubie_def getWorldPosition_def world_tf_def parent_tf_def
      identity_tf_def local_tf_def lattice_positions_def CUBE_GAP_def)

text \<open>
  C4. An index is returned by \<open>getCubiesInSlice\<close> exactly when there is a mesh at that
  index whose world coordinate along the axis, divided by \<open>1 + CUBE_GAP\<close>, differs from
  the slice index by less than 0.1. On a cube in canonical state and for a slice index
  among -1, 0, 1 the result has 9 entries, all different.
\<close>

theorem getCubiesInSlice_spec:
  assumes "canonical_state s" and "k \<in> {- 1, 0, 1}"
  shows "(i \<in> set (getCubiesInSlice s' ax' k') \<longleftrightarrow>
           (\<exists>m. mesh_at (cubieRefs s') i = Some m \<and>
             \<bar>axis_component ax' (getWorldPosition (pivotRef s') m) / (1 + CUBE_GAP) - k'\<bar> < 1 / 10))
         \<and> length (getCubiesInSlice s ax k) = 9
         \<and> distinct (getCubiesInSlice s ax k)"
  using getCubiesInSlice_mem [of i s' ax' k'] getCubiesInSlice_distinct [of s ax k]
    getCubiesInSlice_length [of s ax k] canonical_count [OF assms(1)] lattice_count [OF assms(2)]
  by simp

theorem getCubiesInSlice_spec_witness:
  "canonical_state initial_state \<and> (1::real) \<in> {- 1, 0, 1}
   \<and> length (getCubiesInSlice initial_state X 1) = 9
   \<and> distinct (getCubiesInSlice initial_state X 1)
   \<and> (0 \<in> set (getCubiesInSlice initial_state X (- 1)) \<longleftrightarrow>
        (\<exists>m. mesh_at (cubieRefs initial_state) 0 = Some m \<and>
           \<bar>axis_component X (getWorldPosition (pivotRef initial_state) m) / (1 + CUBE_GAP) - (- 1)\<bar>
             < 1 / 10))"
proof -
  have k: "(1::real) \<in> {- 1, 0, 1}" by simp
  show ?thesis
    using getCubiesInSlice_spec [OF canonical_initial k, of 0 initial_state X "- 1" X]
      canonical_initial k
    by simp
qed

section \<open>Properties of the snapping\<close>

lemma snap_snap: "g \<noteq> 0 \<Longrightarrow> snap (snap v g) g = snap v g"
  by (simp add: snap_def)

lemma gap_nonzero: "1 + CUBE_GAP \<noteq> 0"
  by (simp add: CUBE_GAP_def)

text \<open>
  C7. The snapping of \<open>finishMove\<close> is idempotent: snapping a mesh that has just been
  snapped changes nothing.
\<close>

theorem snap_mesh_idempotent: "snap_mesh (snap_mesh m) = snap_mesh m"
proof -
  obtain px py pz where p: "position m = (px, py, pz)" by (cases "position m")
  obtain rx ry rz where r: "rotation m = (rx, ry, rz)" by (cases "rotation m")
  have g: "snap (snap v (1 + CUBE_GAP)) (1 + CUBE_GAP) = snap v (1 + CUBE_GAP)" for v
    by (rule snap_snap [OF gap_nonzero])
  show ?thesis
    by (simp add: snap_mesh_def p r g)
qed

section \<open>Properties of the gesture interpreter\<close>

lemma trigger_queue:
  assumes "intersectedFaceNormal s = Some n"
    and "0 \<le> intersectedCubieIndex s"
    and "mesh_at (cubieRefs s) (nat (intersectedCubieIndex s)) = Some m"
  shows "\<exists>d. triggerMoveFromGesture dx dy s =
     s\<lparr>moveQueue := moveQueue s @
         [\<lparr>qmove = \<lparr>axis = gesture_axis_table (face_axis n) (\<bar>dx\<bar> > \<bar>dy\<bar>),
                    slice = of_int (round (axis_component
                                (gesture_axis_table (face_axis n) (\<bar>dx\<bar> > \<bar>dy\<bar>))
                                    (getWorldPosition (pivotRef s) m) / (1 + CUBE_GAP))),
                    direction = d\<rparr>, speed = 1\<rparr>]\<rparr>"
proof -
  obtain nx ny nz where n: "n = (nx, ny, nz)" by (cases n)
  show ?thesis
    using assms unfolding n triggerMoveFromGesture_def face_axis_def Let_def
    by (cases "\<bar>nx\<bar> > 1 / 2"; cases "\<bar>ny\<bar> > 1 / 2"; cases "\<bar>dx\<bar> > \<bar>dy\<bar>") auto
qed

lemma mesh_at_initial_26:
  "mesh_at (cubieRefs initial_state) 26 =
     Some \<lparr>position = (102 / 100, 102 / 100, 102 / 100), rotation = (0, 0, 0), parent = Scene\<rparr>"
  by (simp add: mesh_at_def initial_state_def initialCubies_def loop_range_def push_cubie_def
      CUBE_GAP_def)

lemma mesh_at_initial_20:
  "mesh_at (cubieRefs initial_state) 20 =
     Some \<lparr>position = (102 / 100, - (102 / 100), 102 / 100), rotation = (0, 0, 0), parent = Scene\<rparr>"
  by (simp add: mesh_at_def initial_state_def initialCubies_def loop_range_def push_cubie_def
      CUBE_GAP_def)

lemma initial_fields:
  "isAnimating initial_state = False" "moveQueue initial_state = []"
  "pivotRef initial_state = Some \<lparr>position = (0, 0, 0), rotation = (0, 0, 0)\<rparr>"
  by (simp_all add: initial_state_def)

lemma world_tf_scene:
  "world_tf pv \<lparr>position = p, rotation = (0, 0, 0), parent = Scene\<rparr> =
     (((1, 0, 0), (0, 1, 0), (0, 0, 1)), p)"
  by (cases p) (simp add: world_tf_def parent_tf_def identity_tf_def local_tf_def)

lemma pointer_down_26:
  "handlePointerDown (front_grab 26) initial_state =
     initial_state\<lparr>orbitEnabled := False, intersectedFaceNormal := Some (0, 0, 1),
       intersectedCubieIndex := 26, dragStart := Some (100, 100)\<rparr>"
  by (simp add: handlePointerDown_def front_grab_def initial_fields mesh_at_initial_26
      world_tf_scene transformDirection_def normalize_def round_vec_def)

lemma pointer_down_20:
  "handlePointerDown (front_grab 20) initial_state =
     initial_state\<lparr>orbitEnabled := False, intersectedFaceNormal := Some (0, 0, 1),
       intersectedCubieIndex := 20, dragStart := Some (100, 100)\<rparr>"
  by (simp add: handlePointerDown_def front_grab_def initial_fields mesh_at_initial_20
      world_tf_scene transformDirection_def normalize_def round_vec_def)

lemma sqrt_400: "sqrt 400 = 20"
  using real_sqrt_abs [of 20] by simp

lemma sqrt_25: "sqrt 25 = 5"
  using real_sqrt_abs [of 5] by simp

lemma round_minus_one: "round (- 1 :: real) = - 1"
  using round_of_int [of "- 1", where ?'a = real] by simp

text \<open>
  C8. With a cubie face grabbed (drag start, face normal and cubie index recorded, the
  mesh in place), a pointer move whose distance from the drag start is 15 px or more
  appends exactly one move to the queue, with speed 1; its axis is the entry of the
  face/drag table (horizontal meaning \<open>|dx| > |dy|\<close>) and its slice the rounded
  normalised world coordinate of the grabbed cubie along that axis; the grab is then
  released. A pointer move closer than 15 px to the drag start changes nothing.
\<close>

theorem gesture_spec:
  assumes "dragStart s = Some (sx, sy)"
    and "intersectedFaceNormal s = Some n"
    and "0 \<le> intersectedCubieIndex s"
    and "mesh_at (cubieRefs s) (nat (intersectedCubieIndex s)) = Some m"
  shows "\<exists>d. handlePointerMove cx cy s =
     (if sqrt ((cx - sx) * (cx - sx) + (cy - sy) * (cy - sy)) < 15 then s
      else s\<lparr>moveQueue := moveQueue s @
         [\<lparr>qmove = \<lparr>axis = gesture_axis_table (face_axis n) (\<bar>cx - sx\<bar> > \<bar>cy - sy\<bar>),
                    slice = of_int (round (axis_component
                                (gesture_axis_table (face_axis n) (\<bar>cx - sx\<bar> > \<bar>cy - sy\<bar>))
                                    (getWorldPosition (pivotRef s) m) / (1 + CUBE_GAP))),
                    direction = d\<rparr>, speed = 1\<rparr>],
             dragStart := None, intersectedFaceNormal := None,
             intersectedCubieIndex := - 1, orbitEnabled := True\<rparr>)"
proof -
  from trigger_queue [OF assms(2,3,4), of "cx - sx" "cy - sy"] obtain d where
    d: "triggerMoveFromGesture (cx - sx) (cy - sy) s =
     s\<lparr>moveQueue := moveQueue s @
         [\<lparr>qmove = \<lparr>axis = gesture_axis_table (face_axis n) (\<bar>cx - sx\<bar> > \<bar>cy - sy\<bar>),
                    slice = of_int (round (axis_component
                                (gesture_axis_table (face_axis n) (\<bar>cx - sx\<bar> > \<bar>cy - sy\<bar>))
                                    (getWorldPosition (pivotRef s) m) / (1 + CUBE_GAP))),
                    direction = d\<rparr>, speed = 1\<rparr>]\<rparr>" by blast
  have ne: "intersectedCubieIndex s \<noteq> - 1" using assms(3) by simp
  show ?thesis
    apply (rule exI [of _ d])
    using assms(1,2) ne d
    by (simp add: handlePointerMove_def Let_def)
qed

theorem gesture_spec_witness:
  "dragStart (handlePointerDown (front_grab 26) initial_state) = Some (100, 100)
   \<and> intersectedFaceNormal (handlePointerDown (front_grab 26) initial_state) = Some (0, 0, 1)
   \<and> 0 \<le> intersectedCubieIndex (handlePointerDown (front_grab 26) initial_state)
   \<and> mesh_at (cubieRefs (handlePointerDown (front_grab 26) initial_state))
        (nat (intersectedCubieIndex (handlePointerDown (front_grab 26) initial_state))) =
       Some \<lparr>position = (102 / 100, 102 / 100, 102 / 100), rotation = (0, 0, 0), parent = Scene\<rparr>
   \<and> (\<exists>d. handlePointerMove 120 100 (handlePointerDown (front_grab 26) initial_state) =
          (handlePointerDown (front_grab 26) initial_state)
            \<lparr>moveQueue := [\<lparr>qmove = \<lparr>axis = Y, slice = 1, direction = d\<rparr>, speed = 1\<rparr>],
             dragStart := None, intersectedFaceNormal := None,
             intersectedCubieIndex := - 1, orbitEnabled := True\<rparr>)
   \<and> handlePointerMove 105 100 (handlePointerDown (front_grab 26) initial_state) =
        handlePointerDown (front_grab 26) initial_state"
proof -
  let ?s = "handlePointerDown (front_grab 26) initial_state"
  let ?m = "\<lparr>position = (102 / 100, 102 / 100, 102 / 100), rotation = (0, 0, 0), parent = Scene\<rparr>"
  have h1: "dragStart ?s = Some (100, 100)" by (simp add: pointer_down_26)
  have h2: "intersectedFaceNormal ?s = Some (0, 0, 1)" by (simp add: pointer_down_26)
  have h3: "0 \<le> intersectedCubieIndex ?s" by (simp add: pointer_down_26)
  have h4: "mesh_at (cubieRefs ?s) (nat (intersectedCubieIndex ?s)) = Some ?m"
    by (simp add: pointer_down_26 mesh_at_initial_26)
  have mq: "moveQueue ?s = []" by (simp add: pointer_down_26 initial_fields)
  have a: "\<exists>d. handlePointerMove 120 100 ?s =
          ?s\<lparr>moveQueue := [\<lparr>qmove = \<lparr>axis = Y, slice = 1, direction = d\<rparr>, speed = 1\<rparr>],
             dragStart := None, intersectedFaceNormal := None,
             intersectedCubieIndex := - 1, orbitEnabled := True\<rparr>"
    using gesture_spec [OF h1 h2 h3 h4, of 120 100]
    by (simp add: sqrt_400 face_axis_def getWorldPosition_def world_tf_scene CUBE_GAP_def mq)
  have b: "handlePointerMove 105 100 ?s = ?s"
    using gesture_spec [OF h1 h2 h3 h4, of 105 100]
    by (simp add: sqrt_25)
  show ?thesis using h1 h2 h3 h4 a b by blast
qed

text \<open>
  C9, as stated, fails: the slice of the produced move is read from the world position of
  the grabbed cubie. The same face normal and the same drag on the front face give slice
  1 on the cubie at index 26 and slice -1 on the cubie at index 20.
\<close>

theorem gesture_slice_counterexample:
  "intersectedFaceNormal (handlePointerDown (front_grab 26) initial_state) =
     intersectedFaceNormal (handlePointerDown (front_grab 20) initial_state)
   \<and> map qmove (moveQueue (handlePointerMove 120 100 (handlePointerDown (front_grab 26) initial_state)))
       = [\<lparr>axis = Y, slice = 1, direction = Pos1\<rparr>]
   \<and> map qmove (moveQueue (handlePointerMove 120 100 (handlePointerDown (front_grab 20) initial_state)))
       = [\<lparr>axis = Y, slice = - 1, direction = Pos1\<rparr>]"
  by (simp add: pointer_down_26 pointer_down_20 handlePointerMove_def sqrt_400
      triggerMoveFromGesture_def mesh_at_initial_26 mesh_at_initial_20 Let_def
      getWorldPosition_def world_tf_scene initial_fields CUBE_GAP_def round_minus_one)

text \<open>
  C9, amended. The produced move is determined by the face normal, the world position of
  the grabbed cubie and the drag. For two invocations with the same face normal and the
  same drag, on any two states and any two grabbed cubies: each appends one move with
  speed 1; the two moves have the same axis, the entry of the face/drag table, and the
  same direction, so axis and direction depend on the face normal and the drag only; the
  slice of each is the rounded normalised world coordinate of its grabbed cubie along
  that axis; and when the two grabbed cubies have the same world position the two moves
  are identical.
\<close>

theorem gesture_determinism:
  assumes "intersectedFaceNormal s1 = Some n" and "intersectedFaceNormal s2 = Some n"
    and "0 \<le> intersectedCubieIndex s1"
    and "mesh_at (cubieRefs s1) (nat (intersectedCubieIndex s1)) = Some m1"
    and "0 \<le> intersectedCubieIndex s2"
    and "mesh_at (cubieRefs s2) (nat (intersectedCubieIndex s2)) = Some m2"
  shows "\<exists>mv1 mv2.
           triggerMoveFromGesture dx dy s1 =
             s1\<lparr>moveQueue := moveQueue s1 @ [\<lparr>qmove = mv1, speed = 1\<rparr>]\<rparr>
         \<and> triggerMoveFromGesture dx dy s2 =
             s2\<lparr>moveQueue := moveQueue s2 @ [\<lparr>qmove = mv2, speed = 1\<rparr>]\<rparr>
         \<and> axis mv1 = gesture_axis_table (face_axis n) (\<bar>dx\<bar> > \<bar>dy\<bar>)
         \<and> axis mv2 = axis mv1
         \<and> direction mv2 = direction mv1
         \<and> slice mv1 = of_int (round (axis_component (axis mv1)
                             (getWorldPosition (pivotRef s1) m1) / (1 + CUBE_GAP)))
         \<and> slice mv2 = of_int (round (axis_component (axis mv2)
                             (getWorldPosition (pivotRef s2) m2) / (1 + CUBE_GAP)))
         \<and> (getWorldPosition (pivotRef s1) m1 = getWorldPosition (pivotRef s2) m2 \<longrightarrow> mv1 = mv2)"
proof -
  obtain nx ny nz where n: "n = (nx, ny, nz)" by (cases n)
  show ?thesis
    apply (simp only: triggerMoveFromGesture_def assms n option.case if_True prod.case Let_def)
    apply (rule exI, rule exI, rule conjI, rule refl, rule conjI, rule refl)
    apply (cases "1 / 2 < \<bar>nx\<bar>"; cases "1 / 2 < \<bar>ny\<bar>"; cases "\<bar>dy\<bar> < \<bar>dx\<bar>")
           apply (simp_all add: face_axis_def)
    done
qed


theorem gesture_determinism_witness:
  "intersectedFaceNormal (handlePointerDown (front_grab 26) initial_state) = Some (0, 0, 1)
   \<and> intersectedFaceNormal (handlePointerDown (front_grab 20) initial_state) = Some (0, 0, 1)
   \<and> (\<exists>mv1 mv2.
          triggerMoveFromGesture 20 0 (handlePointerDown (front_grab 26) initial_state) =
            (handlePointerDown (front_grab 26) initial_state)
              \<lparr>moveQueue := [\<lparr>qmove = mv1, speed = 1\<rparr>]\<rparr>
        \<and> triggerMoveFromGesture 20 0 (handlePointerDown (front_grab 20) initial_state) =
            (handlePointerDown (front_grab 20) initial_state)
              \<lparr>moveQueue := [\<lparr>qmove = mv2, speed = 1\<rparr>]\<rparr>
        \<and> axis mv1 = Y \<and> axis mv2 = Y \<and> direction mv2 = direction mv1
        \<and> slice mv1 = 1 \<and> slice mv2 = - 1)
   \<and> (\<exists>mv. triggerMoveFromGesture 20 0 (handlePointerDown (front_grab 26) initial_state) =
              (handlePointerDown (front_grab 26) initial_state)
                \<lparr>moveQueue := [\<lparr>qmove = mv, speed = 1\<rparr>]\<rparr>
          \<and> triggerMoveFromGesture 20 0
                (addMove \<lparr>axis = X, slice = 1, direction = Neg1\<rparr> (3 / 2)
                   (handlePointerDown (front_grab 26) initial_state)) =
              (handlePointerDown (front_grab 26) initial_state)
                \<lparr>moveQueue := [\<lparr>qmove = \<lparr>axis = X, slice = 1, direction = Neg1\<rparr>, speed = 3 / 2\<rparr>,
                               \<lparr>qmove = mv, speed = 1\<rparr>]\<rparr>)"
proof -
  let ?s1 = "handlePointerDown (front_grab 26) initial_state"
  let ?s2 = "handlePointerDown (front_grab 20) initial_state"
  let ?s3 = "addMove \<lparr>axis = X, slice = 1, direction = Neg1\<rparr> (3 / 2) ?s1"
  let ?m1 = "\<lparr>position = (102 / 100, 102 / 100, 102 / 100), rotation = (0, 0, 0), parent = Scene\<rparr>"
  let ?m2 = "\<lparr>position = (102 / 100, - (102 / 100), 102 / 100), rotation = (0, 0, 0), parent = Scene\<rparr>"
  have a1: "intersectedFaceNormal ?s1 = Some (0, 0, 1)" by (simp add: pointer_down_26)
  have a2: "intersectedFaceNormal ?s2 = Some (0, 0, 1)" by (simp add: pointer_down_20)
  have a3: "intersectedFaceNormal ?s3 = Some (0, 0, 1)" by (simp add: pointer_down_26 addMove_def)
  have b1: "0 \<le> intersectedCubieIndex ?s1" by (simp add: pointer_down_26)
  have b2: "0 \<le> intersectedCubieIndex ?s2" by (simp add: pointer_down_20)
  have b3: "0 \<le> intersectedCubieIndex ?s3" by (simp add: pointer_down_26 addMove_def)
  have c1: "mesh_at (cubieRefs ?s1) (nat (intersectedCubieIndex ?s1)) = Some ?m1"
    by (simp add: pointer_down_26 mesh_at_initial_26)
  have c2: "mesh_at (cubieRefs ?s2) (nat (intersectedCubieIndex ?s2)) = Some ?m2"
    by (simp add: pointer_down_20 mesh_at_initial_20)
  have c3: "mesh_at (cubieRefs ?s3) (nat (intersectedCubieIndex ?s3)) = Some ?m1"
    by (simp add: pointer_down_26 mesh_at_initial_26 addMove_def)
  have w1: "getWorldPosition (pivotRef ?s1) ?m1 = (102 / 100, 102 / 100, 102 / 100)"
    and w2: "getWorldPosition (pivotRef ?s2) ?m2 = (102 / 100, - (102 / 100), 102 / 100)"
    and w3: "getWorldPosition (pivotRef ?s3) ?m1 = (102 / 100, 102 / 100, 102 / 100)"
    by (simp_all only: getWorldPosition_def world_tf_scene snd_conv)
  have q1: "moveQueue ?s1 = []" by (simp add: pointer_down_26 initial_fields)
  have q2: "moveQueue ?s2 = []" by (simp add: pointer_down_20 initial_fields)
  have q3: "?s3\<lparr>moveQueue := moveQueue ?s3 @ [x]\<rparr> =
      ?s1\<lparr>moveQueue := [\<lparr>qmove = \<lparr>axis = X, slice = 1, direction = Neg1\<rparr>, speed = 3 / 2\<rparr>, x]\<rparr>" for x
    by (simp add: addMove_def q1)
  have ax: "gesture_axis_table (face_axis (0, 0, 1)) (\<bar>0 :: real\<bar> < \<bar>20\<bar>) = Y"
    by (simp add: face_axis_def)
  from gesture_determinism [OF a1 a2 b1 c1 b2 c2, of 20 0]
  have first: "\<exists>mv1 mv2.
          triggerMoveFromGesture 20 0 ?s1 = ?s1\<lparr>moveQueue := [\<lparr>qmove = mv1, speed = 1\<rparr>]\<rparr>
        \<and> triggerMoveFromGesture 20 0 ?s2 = ?s2\<lparr>moveQueue := [\<lparr>qmove = mv2, speed = 1\<rparr>]\<rparr>
        \<and> axis mv1 = Y \<and> axis mv2 = Y \<and> direction mv2 = direction mv1
        \<and> slice mv1 = 1 \<and> slice mv2 = - 1"
    unfolding w1 w2 q1 q2 ax append_Nil
    by (elim exE conjE) (intro exI conjI, assumption, assumption, simp_all add: CUBE_GAP_def round_minus_one)
  from gesture_determinism [OF a1 a3 b1 c1 b3 c3, of 20 0]
  have second: "\<exists>mv. triggerMoveFromGesture 20 0 ?s1 = ?s1\<lparr>moveQueue := [\<lparr>qmove = mv, speed = 1\<rparr>]\<rparr>
          \<and> triggerMoveFromGesture 20 0 ?s3 =
              ?s1\<lparr>moveQueue := [\<lparr>qmove = \<lparr>axis = X, slice = 1, direction = Neg1\<rparr>, speed = 3 / 2\<rparr>,
                               \<lparr>qmove = mv, speed = 1\<rparr>]\<rparr>"
    unfolding w1 w3 q1 q3 append_Nil by auto
  show ?thesis using a1 a2 first second by blast
qed

section \<open>Properties of the move execution state machine\<close>

lemma fold_refs_only:
  "fold (\<lambda>idx st. case mesh_at (cubieRefs st) idx of
                     None \<Rightarrow> st
                   | Some m \<Rightarrow> st\<lparr>cubieRefs := (cubieRefs st)[idx := Some (g (pivotRef st) m)]\<rparr>) idxs s
   = s\<lparr>cubieRefs := reparent_all (g (pivotRef s)) idxs (cubieRefs s)\<rparr>"
proof (induction idxs arbitrary: s)
  case Nil
  then show ?case by (simp add: reparent_all_def)
next
  case (Cons i idxs)
  show ?case
    by (cases "mesh_at (cubieRefs s) i") (simp_all add: Cons reparent_all_def)
qed

lemma startMove_eq:
  "startMove mv sp s =
     (case pivotRef s of
        None \<Rightarrow> s
      | Some pv \<Rightarrow>
          s\<lparr>isAnimating := True,
            currentMove := Some \<lparr>qmove = mv, speed = sp\<rparr>,
            currentAngle := 0,
            activeCubieIndices := getCubiesInSlice s (axis mv) (slice mv),
            pivotRef := Some (pv\<lparr>position := (0, 0, 0), rotation := (0, 0, 0)\<rparr>),
            cubieRefs := reparent_all
               (attach (Some (pv\<lparr>position := (0, 0, 0), rotation := (0, 0, 0)\<rparr>)) Pivot)
               (getCubiesInSlice s (axis mv) (slice mv)) (cubieRefs s)\<rparr>)"
  unfolding startMove_def Let_def
  by (cases "pivotRef s") (simp_all add: fold_refs_only [where g = "\<lambda>pv. attach pv Pivot"])

lemma finishMove_eq:
  "finishMove s =
     (case pivotRef s of
        None \<Rightarrow> s
      | Some pv \<Rightarrow>
         (case currentMove s of
            None \<Rightarrow> s
          | Some cm \<Rightarrow>
             s\<lparr>pivotRef := Some (pv\<lparr>rotation := (0, 0, 0)\<rparr>),
               onMoveComplete_calls := onMoveComplete_calls s @ [qmove cm],
               isAnimating := False,
               currentMove := None,
               activeCubieIndices := [],
               cubieRefs := reparent_all
                  (\<lambda>m. snap_mesh (attach (Some (pv\<lparr>rotation := set_axis_component (axis (qmove cm))
                                         ((pi / 2) * dir_val (direction (qmove cm))) (rotation pv)\<rparr>)) Scene m))
                  (activeCubieIndices s) (cubieRefs s)\<rparr>))"
  unfolding finishMove_def Let_def
  by (cases "pivotRef s"; cases "currentMove s")
     (simp_all add: fold_refs_only [where g = "\<lambda>pv m. snap_mesh (attach pv Scene m)"])


lemma addMoves_queue:
  "addMoves mvs sp s = s\<lparr>moveQueue := moveQueue s @ map (\<lambda>mv. \<lparr>qmove = mv, speed = sp\<rparr>) mvs\<rparr>"
  unfolding addMoves_def
  by (induction mvs arbitrary: s) simp_all

lemma toward_target_abs: "toward_target cm a \<Longrightarrow> \<bar>a\<bar> \<le> pi / 2"
  by (cases "direction (qmove cm)") (auto simp: toward_target_def)

lemma tick_step_toward:
  assumes "0 < delta" and "0 < speed cm" and "toward_target cm a"
  shows "toward_target cm (a + tick_step delta cm a)"
proof -
  have v: "0 < 5 * delta * speed cm" using assms(1,2) by simp
  show ?thesis
    using assms(3) v pi_gt_zero
    by (cases "direction (qmove cm)")
       (auto simp: toward_target_def tick_step_def Let_def abs_if algebra_simps split: if_splits)
qed

lemma angle_inv_finishMove:
  "angle_inv s \<Longrightarrow> angle_inv (finishMove s)"
  by (auto simp: finishMove_eq angle_inv_def split: option.splits)

lemma angle_inv_startMove:
  "angle_inv s \<Longrightarrow> 0 < sp \<Longrightarrow> angle_inv (startMove mv sp s)"
  using pi_gt_zero
  by (auto simp: startMove_eq angle_inv_def toward_target_def split: option.splits)

lemma angle_inv_useFrame:
  assumes "angle_inv s" and "0 < delta"
  shows "angle_inv (useFrame delta s)"
proof (cases "isAnimating s \<and> currentMove s \<noteq> None \<and> pivotRef s \<noteq> None")
  case True
  then obtain cm pv where cm: "currentMove s = Some cm" and pv: "pivotRef s = Some pv" and an: "isAnimating s"
    by auto
  let ?s1 = "s\<lparr>pivotRef := Some (pv\<lparr>rotation :=
                         set_axis_component (axis (qmove cm)) (axis_component (axis (qmove cm)) (rotation pv) + tick_step delta cm (currentAngle s)) (rotation pv)\<rparr>),
                     currentAngle := currentAngle s + tick_step delta cm (currentAngle s)\<rparr>"
  have sp: "0 < speed cm" and tt: "toward_target cm (currentAngle s)"
    using assms(1) cm by (auto simp: angle_inv_def)
  have tt': "toward_target cm (currentAngle s + tick_step delta cm (currentAngle s))"
    by (rule tick_step_toward [OF assms(2) sp tt])
  have i1: "angle_inv ?s1"
    using assms(1) cm sp tt' toward_target_abs [OF tt']
    by (simp add: angle_inv_def split: option.splits)
  have "useFrame delta s = (if \<bar>currentAngle ?s1\<bar> \<ge> pi / 2 - 1 / 1000 then finishMove ?s1 else ?s1)"
    using cm pv an by (simp add: useFrame_def Let_def)
  then show ?thesis using i1 angle_inv_finishMove [OF i1] by simp
next
  case False
  then have u: "useFrame delta s =
     (if moveQueue s \<noteq> [] \<and> \<not> isAnimating s
           then (case moveQueue s of
                   [] \<Rightarrow> s
                 | next # rest \<Rightarrow> startMove (qmove next) (speed next) (s\<lparr>moveQueue := rest\<rparr>))
           else s)"
    by (auto simp: useFrame_def split: option.splits)
  show ?thesis
  proof (cases "moveQueue s")
    case Nil
    then show ?thesis using u assms(1) by simp
  next
    case (Cons q rest)
    have "angle_inv (s\<lparr>moveQueue := rest\<rparr>)" and "0 < speed q"
      using assms(1) Cons by (auto simp: angle_inv_def split: option.splits)
    then have "angle_inv (startMove (qmove q) (speed q) (s\<lparr>moveQueue := rest\<rparr>))"
      by (rule angle_inv_startMove)
    then show ?thesis using u Cons assms(1) by simp
  qed
qed

lemma angle_inv_trigger: "angle_inv s \<Longrightarrow> angle_inv (triggerMoveFromGesture dx dy s)"
  by (auto simp: triggerMoveFromGesture_def angle_inv_def Let_def split: option.splits prod.splits)

lemma angle_inv_event:
  assumes "angle_inv s" and "valid_event e"
  shows "angle_inv (apply_event e s)"
proof (cases e)
  case (AddMove mv sp)
  then show ?thesis using assms by (simp add: addMove_def angle_inv_def split: option.splits)
next
  case (AddMoves mvs sp)
  then show ?thesis using assms
    by (auto simp: addMoves_queue angle_inv_def list_all_iff split: option.splits)
next
  case (Frame delta)
  then show ?thesis using assms angle_inv_useFrame by simp
next
  case (PointerDown ev)
  then show ?thesis using assms
    by (auto simp: handlePointerDown_def angle_inv_def split: option.splits)
next
  case (PointerMove x y)
  have "angle_inv (s'\<lparr>dragStart := None, intersectedFaceNormal := None,
                       intersectedCubieIndex := - 1, orbitEnabled := True\<rparr>)" if "angle_inv s'" for s'
    using that by (simp add: angle_inv_def split: option.splits)
  then show ?thesis using PointerMove assms(1) angle_inv_trigger [OF assms(1)]
    by (auto simp: handlePointerMove_def Let_def split: option.splits prod.splits)
next
  case PointerUp
  then show ?thesis using assms
    by (simp add: handlePointerUp_def angle_inv_def split: option.splits)
qed

lemma angle_inv_run:
  "angle_inv s \<Longrightarrow> list_all valid_event evs \<Longrightarrow> angle_inv (run evs s)"
  unfolding run_def
  by (induction evs arbitrary: s) (simp_all add: angle_inv_event)

lemma angle_inv_initial: "angle_inv initial_state"
  using pi_gt_zero by (simp add: angle_inv_def initial_state_def)

text \<open>
  In every run from the mounted component under valid events, a move in flight has a
  positive speed multiplier and an angle that is not past its target.
\<close>

lemma run_tick_preconditions:
  assumes "list_all valid_event evs" and "currentMove (run evs initial_state) = Some cm"
  shows "0 < speed cm"
    and "dir_val (direction (qmove cm)) * currentAngle (run evs initial_state) \<le> pi / 2"
  using angle_inv_run [OF angle_inv_initial assms(1)] assms(2)
  by (simp_all add: angle_inv_def toward_target_def)

text \<open>
  C10. Whatever the events, with positive speed multipliers and positive frame times of
  any size, the accumulated angle never exceeds a quarter turn in absolute value: this
  holds after every event of every run from the mounted component, so after every tick.
\<close>

theorem currentAngle_bounded:
  assumes "list_all valid_event evs"
  shows "\<bar>currentAngle (run evs initial_state)\<bar> \<le> pi / 2"
  using angle_inv_run [OF angle_inv_initial assms] by (simp add: angle_inv_def)


lemma tick_step_spec:
  assumes "0 \<le> delta * speed cm"
    and "dir_val (direction (qmove cm)) * angle \<le> pi / 2"
  shows "tick_step delta cm angle =
     dir_val (direction (qmove cm)) *
       min \<bar>5 * speed cm * delta\<bar> \<bar>(pi / 2) * dir_val (direction (qmove cm)) - angle\<bar>"
proof (cases "direction (qmove cm)")
  case Pos1
  then show ?thesis using assms pi_gt_zero
    by (simp add: tick_step_def Let_def min_def abs_if mult.commute mult.left_commute)
next
  case Neg1
  then show ?thesis using assms pi_gt_zero
    by (simp add: tick_step_def Let_def min_def abs_if mult.commute mult.left_commute)
qed

text \<open>
  C6. A tick of an animating move whose speed multiplier and frame time give a
  non-negative product, at an angle that is not past the target, applies the step
  \<open>direction * min |5 * speed * delta| |target - currentAngle|\<close> with target
  \<open>(pi / 2) * direction\<close>: the step is added to the pivot's rotation about the move's
  axis and to \<open>currentAngle\<close>, and \<open>finishMove\<close> runs exactly when the new
  \<open>|currentAngle|\<close> is at least \<open>pi / 2 - 0.001\<close>.
\<close>

theorem useFrame_tick:
  assumes "isAnimating s" and "currentMove s = Some cm" and "pivotRef s = Some pv"
    and "0 \<le> delta * speed cm"
    and "dir_val (direction (qmove cm)) * currentAngle s \<le> pi / 2"
  shows "useFrame delta s =
     (let d = dir_val (direction (qmove cm));
          step = d * min \<bar>5 * speed cm * delta\<bar> \<bar>(pi / 2) * d - currentAngle s\<bar>;
          ax = axis (qmove cm);
          s1 = s\<lparr>pivotRef := Some (pv\<lparr>rotation :=
                       set_axis_component ax (axis_component ax (rotation pv) + step) (rotation pv)\<rparr>),
                 currentAngle := currentAngle s + step\<rparr>
      in if \<bar>currentAngle s + step\<bar> \<ge> pi / 2 - 1 / 1000 then finishMove s1 else s1)"
  using assms(1,2,3) tick_step_spec [OF assms(4,5)]
  by (simp add: useFrame_def Let_def)

lemma getCubiesInSlice_queue [simp]:
  "getCubiesInSlice (s\<lparr>moveQueue := q\<rparr>) ax k = getCubiesInSlice s ax k"
  by (simp add: getCubiesInSlice_def cong: option.case_cong)

lemma first_frame:
  "run [AddMove mv sp, Frame delta] initial_state =
     initial_state\<lparr>isAnimating := True,
       currentMove := Some \<lparr>qmove = mv, speed = sp\<rparr>,
       currentAngle := 0,
       activeCubieIndices := getCubiesInSlice initial_state (axis mv) (slice mv),
       pivotRef := Some \<lparr>position = (0, 0, 0), rotation = (0, 0, 0)\<rparr>,
       cubieRefs := reparent_all
          (attach (Some \<lparr>position = (0, 0, 0), rotation = (0, 0, 0)\<rparr>) Pivot)
          (getCubiesInSlice initial_state (axis mv) (slice mv)) (cubieRefs initial_state)\<rparr>"
  by (simp add: run_def addMove_def useFrame_def startMove_eq initial_fields)

theorem useFrame_tick_witness:
  "isAnimating (run [AddMove \<lparr>axis = X, slice = 1, direction = Neg1\<rparr> (3 / 2), Frame (1 / 60)] initial_state)
   \<and> currentMove (run [AddMove \<lparr>axis = X, slice = 1, direction = Neg1\<rparr> (3 / 2), Frame (1 / 60)] initial_state)
       = Some \<lparr>qmove = \<lparr>axis = X, slice = 1, direction = Neg1\<rparr>, speed = 3 / 2\<rparr>
   \<and> pivotRef (run [AddMove \<lparr>axis = X, slice = 1, direction = Neg1\<rparr> (3 / 2), Frame (1 / 60)] initial_state)
       = Some \<lparr>position = (0, 0, 0), rotation = (0, 0, 0)\<rparr>
   \<and> currentAngle (run [AddMove \<lparr>axis = X, slice = 1, direction = Neg1\<rparr> (3 / 2), Frame (1 / 60)] initial_state) = 0
   \<and> currentAngle (useFrame (1 / 100)
         (run [AddMove \<lparr>axis = X, slice = 1, direction = Neg1\<rparr> (3 / 2), Frame (1 / 60)] initial_state))
       = - (3 / 40)
   \<and> pivotRef (useFrame (1 / 100)
         (run [AddMove \<lparr>axis = X, slice = 1, direction = Neg1\<rparr> (3 / 2), Frame (1 / 60)] initial_state))
       = Some \<lparr>position = (0, 0, 0), rotation = (- (3 / 40), 0, 0)\<rparr>"
proof -
  let ?cm = "\<lparr>qmove = \<lparr>axis = X, slice = 1, direction = Neg1\<rparr>, speed = 3 / 2\<rparr>"
  let ?s = "run [AddMove \<lparr>axis = X, slice = 1, direction = Neg1\<rparr> (3 / 2), Frame (1 / 60)] initial_state"
  let ?pv = "\<lparr>position = (0, 0, 0), rotation = (0 :: real, 0 :: real, 0 :: real)\<rparr>"
  have h1: "isAnimating ?s" by (simp add: first_frame)
  have h2: "currentMove ?s = Some ?cm" by (simp add: first_frame)
  have h3: "pivotRef ?s = Some ?pv" by (simp add: first_frame)
  have a0: "currentAngle ?s = 0" by (simp add: first_frame)
  have h4: "0 \<le> (1 / 100) * speed ?cm" by simp
  have h5: "dir_val (direction (qmove ?cm)) * currentAngle ?s \<le> pi / 2"
    by (simp add: a0)
  have m: "min (3 / 40) (pi / 2) = 3 / 40" using pi_ge_two by (simp add: min_def)
  have n: "\<not> (pi / 2 - 1 / 1000 \<le> 3 / 40)" using pi_ge_two by simp
  have u: "useFrame (1 / 100) ?s =
      ?s\<lparr>pivotRef := Some \<lparr>position = (0, 0, 0), rotation = (- (3 / 40), 0, 0)\<rparr>,
          currentAngle := - (3 / 40)\<rparr>"
    using useFrame_tick [OF h1 h2 h3 h4 h5] m n
    by (simp add: a0 Let_def)
  show ?thesis using h1 h2 h3 a0 u by simp
qed

theorem currentAngle_bounded_witness:
  "list_all valid_event
     [AddMove (\<lparr>axis = X, slice = 1, direction = Neg1\<rparr>) 1000, Frame 1000000, Frame 1000000, Frame 1000000]
   \<and> \<bar>currentAngle (run [AddMove (\<lparr>axis = X, slice = 1, direction = Neg1\<rparr>) 1000, Frame 1000000,
                           Frame 1000000, Frame 1000000] initial_state)\<bar> \<le> pi / 2"
proof -
  have v: "list_all valid_event
     [AddMove (\<lparr>axis = X, slice = 1, direction = Neg1\<rparr>) 1000, Frame 1000000, Frame 1000000, Frame 1000000]"
    by simp
  show ?thesis using currentAngle_bounded [OF v] v by blast
qed

section \<open>Order and completion of queued moves\<close>

lemma useFrame_idle:
  assumes "\<not> isAnimating s"
  shows "useFrame delta s =
     (case moveQueue s of [] \<Rightarrow> s
      | q # rest \<Rightarrow> startMove (qmove q) (speed q) (s\<lparr>moveQueue := rest\<rparr>))"
  using assms by (cases "moveQueue s") (simp_all add: useFrame_def split: option.splits)

lemma useFrame_animating:
  assumes "isAnimating s" and "currentMove s = Some cm" and "pivotRef s = Some pv"
  shows "useFrame delta s =
     (let s1 = s\<lparr>pivotRef := Some (pv\<lparr>rotation :=
                    set_axis_component (axis (qmove cm))
                      (axis_component (axis (qmove cm)) (rotation pv) + tick_step delta cm (currentAngle s))
                      (rotation pv)\<rparr>),
                  currentAngle := currentAngle s + tick_step delta cm (currentAngle s)\<rparr>
      in if \<bar>currentAngle s + tick_step delta cm (currentAngle s)\<bar> \<ge> pi / 2 - 1 / 1000
         then finishMove s1 else s1)"
  using assms by (simp add: useFrame_def Let_def)

lemma useFrame_timeline:
  assumes "machine_inv s"
  shows "timeline (useFrame delta s) = timeline s \<and> machine_inv (useFrame delta s)"
proof (cases "isAnimating s")
  case True
  then obtain cm pv where cm: "currentMove s = Some cm" and pv: "pivotRef s = Some pv"
    using assms by (auto simp: machine_inv_def)
  show ?thesis
    using True cm pv
    by (simp add: useFrame_animating [OF True cm pv] Let_def finishMove_eq timeline_def
        in_flight_def machine_inv_def)
next
  case False
  then have cm: "currentMove s = None" using assms by (simp add: machine_inv_def)
  obtain pv where pv: "pivotRef s = Some pv" using assms by (auto simp: machine_inv_def)
  show ?thesis
    using False cm pv
    by (cases "moveQueue s")
       (simp_all add: useFrame_idle [OF False] startMove_eq timeline_def in_flight_def machine_inv_def)
qed

lemma trigger_queue_cases:
  "triggerMoveFromGesture dx dy s = s \<or>
   (\<exists>mv. triggerMoveFromGesture dx dy s = s\<lparr>moveQueue := moveQueue s @ [\<lparr>qmove = mv, speed = 1\<rparr>]\<rparr>)"
proof (cases "intersectedFaceNormal s")
  case None
  then show ?thesis by (simp add: triggerMoveFromGesture_def)
next
  case (Some n)
  obtain nx ny nz where n: "n = (nx, ny, nz)" by (cases n)
  show ?thesis
  proof (cases "if 0 \<le> intersectedCubieIndex s
                then mesh_at (cubieRefs s) (nat (intersectedCubieIndex s)) else None")
    case None
    then show ?thesis
      by (simp only: triggerMoveFromGesture_def Some n option.case prod.case) simp
  next
    case (Some m)
    have "\<exists>mv. triggerMoveFromGesture dx dy s =
            s\<lparr>moveQueue := moveQueue s @ [\<lparr>qmove = mv, speed = 1\<rparr>]\<rparr>"
      apply (simp only: triggerMoveFromGesture_def \<open>intersectedFaceNormal s = Some n\<close> n Some
          option.case prod.case Let_def)
      apply (rule exI, rule refl)
      done
    then show ?thesis by blast
  qed
qed

lemma handlePointerMove_cases:
  "handlePointerMove x y s = s \<or>
   (\<exists>q. handlePointerMove x y s =
      s\<lparr>moveQueue := moveQueue s @ q, dragStart := None, intersectedFaceNormal := None,
        intersectedCubieIndex := - 1, orbitEnabled := True\<rparr>)"
proof (cases "dragStart s")
  case None
  then show ?thesis by (simp add: handlePointerMove_def)
next
  case (Some p)
  obtain sx sy where p: "p = (sx, sy)" by (cases p)
  let ?r = "\<lambda>t. t\<lparr>dragStart := None, intersectedFaceNormal := None,
        intersectedCubieIndex := - 1, orbitEnabled := True\<rparr>"
  have h: "handlePointerMove x y s = s \<or>
           handlePointerMove x y s = ?r (triggerMoveFromGesture (x - sx) (y - sy) s)"
    by (simp add: handlePointerMove_def Some p Let_def)
  from trigger_queue_cases [of "x - sx" "y - sy" s]
  have "\<exists>q. ?r (triggerMoveFromGesture (x - sx) (y - sy) s) = ?r (s\<lparr>moveQueue := moveQueue s @ q\<rparr>)"
  proof
    assume "triggerMoveFromGesture (x - sx) (y - sy) s = s"
    then show ?thesis by (intro exI [of _ "[]"]) simp
  next
    assume "\<exists>mv. triggerMoveFromGesture (x - sx) (y - sy) s =
       s\<lparr>moveQueue := moveQueue s @ [\<lparr>qmove = mv, speed = 1\<rparr>]\<rparr>"
    then obtain mv where "triggerMoveFromGesture (x - sx) (y - sy) s =
       s\<lparr>moveQueue := moveQueue s @ [\<lparr>qmove = mv, speed = 1\<rparr>]\<rparr>" by blast
    then show ?thesis by (intro exI [of _ "[\<lparr>qmove = mv, speed = 1\<rparr>]"]) simp
  qed
  then obtain q where
    "?r (triggerMoveFromGesture (x - sx) (y - sy) s) = ?r (s\<lparr>moveQueue := moveQueue s @ q\<rparr>)"
    by blast
  with h show ?thesis by auto
qed

lemma event_timeline:
  assumes "machine_inv s"
  shows "timeline (apply_event e s) = timeline s @ added e s \<and> machine_inv (apply_event e s)"
proof (cases e)
  case (AddMove mv sp)
  then show ?thesis using assms
    by (simp add: addMove_def timeline_def in_flight_def machine_inv_def)
next
  case (AddMoves mvs sp)
  then show ?thesis using assms
    by (simp add: addMoves_queue timeline_def in_flight_def machine_inv_def comp_def)
next
  case (Frame delta)
  then show ?thesis using useFrame_timeline [OF assms] by simp
next
  case (PointerDown ev)
  then show ?thesis using assms
    by (auto simp: handlePointerDown_def timeline_def in_flight_def machine_inv_def
        split: option.splits)
next
  case (PointerMove x y)
  from handlePointerMove_cases [of x y s] show ?thesis
  proof
    assume "handlePointerMove x y s = s"
    then show ?thesis using PointerMove assms by simp
  next
    assume "\<exists>q. handlePointerMove x y s =
      s\<lparr>moveQueue := moveQueue s @ q, dragStart := None, intersectedFaceNormal := None,
        intersectedCubieIndex := - 1, orbitEnabled := True\<rparr>"
    then obtain q where q: "handlePointerMove x y s =
      s\<lparr>moveQueue := moveQueue s @ q, dragStart := None, intersectedFaceNormal := None,
        intersectedCubieIndex := - 1, orbitEnabled := True\<rparr>" by blast
    show ?thesis using PointerMove assms
      by (simp add: q timeline_def in_flight_def machine_inv_def)
  qed
next
  case PointerUp
  then show ?thesis using assms
    by (simp add: handlePointerUp_def timeline_def in_flight_def machine_inv_def)
qed

lemma run_timeline:
  "machine_inv s \<Longrightarrow>
   timeline (run evs s) = timeline s @ enqueued evs s \<and> machine_inv (run evs s)"
proof (induction evs arbitrary: s)
  case Nil
  then show ?case by (simp add: run_def)
next
  case (Cons e es)
  from event_timeline [OF Cons.prems, of e]
  have t: "timeline (apply_event e s) = timeline s @ added e s" and m: "machine_inv (apply_event e s)"
    by simp_all
  from Cons.IH [OF m] t show ?case by (simp add: run_def)
qed

lemma machine_inv_initial: "machine_inv initial_state"
  by (simp add: machine_inv_def initial_state_def)

lemma timeline_initial: "timeline initial_state = []"
  by (simp add: timeline_def in_flight_def initial_state_def)


lemma set_axis_component_twice [simp]:
  "set_axis_component ax v (set_axis_component ax r rot) = set_axis_component ax v rot"
  by (cases ax; cases rot) simp_all

lemma axis_component_set [simp]:
  "axis_component ax (set_axis_component ax r rot) = r"
  by (cases ax; cases rot) simp_all

lemma set_axis_component_same [simp]:
  "set_axis_component ax (axis_component ax rot) rot = rot"
  by (cases ax; cases rot) simp_all

lemma frames_Suc: "frames (Suc n) delta s = frames n delta (useFrame delta s)"
  by (simp add: frames_def funpow_swap1)

lemma frames_add: "frames (m + n) delta s = frames n delta (frames m delta s)"
  by (subst add.commute) (simp add: frames_def funpow_add)

lemma finishMove_insensitive:
  assumes "currentMove s = Some cm" and "pivotRef s = Some pv"
  shows "finishMove (s\<lparr>pivotRef := Some (pv\<lparr>rotation := set_axis_component (axis (qmove cm)) r (rotation pv)\<rparr>),
                      currentAngle := a\<rparr>) = (finishMove s)\<lparr>currentAngle := a\<rparr>"
  using assms by (simp add: finishMove_eq)

lemma tick_finishes_aux:
  assumes an: "isAnimating s" and cm: "currentMove s = Some cm" and pv: "pivotRef s = Some pv"
    and d: "0 < delta" and sp: "0 < speed cm"
  shows "toward_target cm a \<Longrightarrow>
         pi / 2 - dir_val (direction (qmove cm)) * a \<le> real k * (5 * delta * speed cm) \<Longrightarrow>
         \<exists>n a'. frames (Suc n) delta
                  (s\<lparr>pivotRef := Some (pv\<lparr>rotation := set_axis_component (axis (qmove cm)) r (rotation pv)\<rparr>),
                     currentAngle := a\<rparr>)
               = (finishMove s)\<lparr>currentAngle := a'\<rparr>"
proof (induction k arbitrary: a r)
  case 0
  let ?S = "\<lambda>a r. s\<lparr>pivotRef := Some (pv\<lparr>rotation := set_axis_component (axis (qmove cm)) r (rotation pv)\<rparr>),
                     currentAngle := a\<rparr>"
  have v: "0 < 5 * delta * speed cm" using d sp by simp
  have eq: "dir_val (direction (qmove cm)) * a = pi / 2"
    using 0 by (simp add: toward_target_def)
  have st: "tick_step delta cm a = 0"
    using eq v by (cases "direction (qmove cm)") (auto simp: tick_step_def Let_def)
  have ab: "\<bar>a\<bar> = pi / 2"
    using eq pi_gt_zero by (cases "direction (qmove cm)") (auto simp del: pi_gt_zero)
  have "useFrame delta (?S a r) = finishMove (?S a r)"
    using an cm pv st ab
    by (simp add: useFrame_animating [where cm = cm and pv = "pv\<lparr>rotation := set_axis_component (axis (qmove cm)) r (rotation pv)\<rparr>"] Let_def)
  then have "frames (Suc 0) delta (?S a r) = (finishMove s)\<lparr>currentAngle := a\<rparr>"
    using finishMove_insensitive [OF cm pv] by (simp add: frames_def)
  then show ?case by blast
next
  case (Suc k)
  let ?S = "\<lambda>a r. s\<lparr>pivotRef := Some (pv\<lparr>rotation := set_axis_component (axis (qmove cm)) r (rotation pv)\<rparr>),
                     currentAngle := a\<rparr>"
  let ?st = "tick_step delta cm a"
  have v: "0 < 5 * delta * speed cm" using d sp by simp
  have u: "useFrame delta (?S a r) =
      (if \<bar>a + ?st\<bar> \<ge> pi / 2 - 1 / 1000 then finishMove (?S (a + ?st) (r + ?st)) else ?S (a + ?st) (r + ?st))"
    using an cm pv
    by (simp add: useFrame_animating [where cm = cm and pv = "pv\<lparr>rotation := set_axis_component (axis (qmove cm)) r (rotation pv)\<rparr>"] Let_def)
  show ?case
  proof (cases "\<bar>a + ?st\<bar> \<ge> pi / 2 - 1 / 1000")
    case True
    then have "frames (Suc 0) delta (?S a r) = (finishMove s)\<lparr>currentAngle := a + ?st\<rparr>"
      using u finishMove_insensitive [OF cm pv] by (simp add: frames_def)
    then show ?thesis by blast
  next
    case False
    have tt: "toward_target cm (a + ?st)"
      by (rule tick_step_toward [OF d sp Suc.prems(1)])
    have nclamp: "?st = dir_val (direction (qmove cm)) * (5 * delta * speed cm)"
    proof (rule ccontr)
      assume ne: "?st \<noteq> dir_val (direction (qmove cm)) * (5 * delta * speed cm)"
      then have "?st = (pi / 2) * dir_val (direction (qmove cm)) - a"
        by (cases "direction (qmove cm)") (auto simp: tick_step_def Let_def split: if_splits)
      then have "\<bar>a + ?st\<bar> = pi / 2"
        using pi_gt_zero by (cases "direction (qmove cm)") (auto simp del: pi_gt_zero)
      then show False using False by simp
    qed
    have le: "pi / 2 - dir_val (direction (qmove cm)) * (a + ?st) \<le> real k * (5 * delta * speed cm)"
    proof -
      have "dir_val (direction (qmove cm)) * ?st = 5 * delta * speed cm"
        unfolding nclamp by (cases "direction (qmove cm)") auto
      then show ?thesis using Suc.prems(2) by (simp add: algebra_simps)
    qed
    from Suc.IH [OF tt le, of "r + ?st"] obtain n a' where
      n: "frames (Suc n) delta (?S (a + ?st) (r + ?st)) = (finishMove s)\<lparr>currentAngle := a'\<rparr>"
      by blast
    have "frames (Suc (Suc n)) delta (?S a r) = (finishMove s)\<lparr>currentAngle := a'\<rparr>"
      using n u False by (simp only: frames_Suc [of "Suc n"] if_False)
    then show ?thesis by blast
  qed
qed

lemma tick_finishes:
  assumes an: "isAnimating s" and cm: "currentMove s = Some cm" and pv: "pivotRef s = Some pv"
    and d: "0 < delta" and sp: "0 < speed cm" and tt: "toward_target cm (currentAngle s)"
  shows "\<exists>n a'. frames (Suc n) delta s = (finishMove s)\<lparr>currentAngle := a'\<rparr>"
proof -
  have v: "0 < 5 * delta * speed cm" using d sp by simp
  obtain k :: nat where k: "(pi / 2 - dir_val (direction (qmove cm)) * currentAngle s) / (5 * delta * speed cm) \<le> real k"
    using real_arch_simple by blast
  then have le: "pi / 2 - dir_val (direction (qmove cm)) * currentAngle s \<le> real k * (5 * delta * speed cm)"
    using v by (simp add: pos_divide_le_eq)
  have s: "s\<lparr>pivotRef := Some (pv\<lparr>rotation := set_axis_component (axis (qmove cm))
              (axis_component (axis (qmove cm)) (rotation pv)) (rotation pv)\<rparr>),
            currentAngle := currentAngle s\<rparr> = s"
    using pv by simp
  from tick_finishes_aux [OF an cm pv d sp tt le, of "axis_component (axis (qmove cm)) (rotation pv)"]
  show ?thesis unfolding s .
qed


lemma getCubiesInSlice_angle [simp]:
  "getCubiesInSlice (s\<lparr>currentAngle := a\<rparr>) ax k = getCubiesInSlice s ax k"
  by (simp add: getCubiesInSlice_def cong: option.case_cong)

lemma startMove_queue:
  "startMove mv sp (s\<lparr>moveQueue := q\<rparr>) = (startMove mv sp s)\<lparr>moveQueue := q\<rparr>"
  by (cases "pivotRef s") (simp_all add: startMove_eq)

lemma finishMove_queue:
  "finishMove (s\<lparr>moveQueue := q\<rparr>) = (finishMove s)\<lparr>moveQueue := q\<rparr>"
  by (cases "pivotRef s"; cases "currentMove s") (simp_all add: finishMove_eq)

lemma startMove_angle:
  "pivotRef s \<noteq> None \<Longrightarrow> startMove mv sp (s\<lparr>currentAngle := a\<rparr>) = startMove mv sp s"
  by (cases "pivotRef s") (simp_all add: startMove_eq)

text \<open>The state after a move has been started and finished.\<close>

lemma start_finish_fields:
  assumes "pivotRef s = Some pv"
  shows "isAnimating (finishMove (startMove mv sp s)) = False"
    and "currentMove (finishMove (startMove mv sp s)) = None"
    and "pivotRef (finishMove (startMove mv sp s)) = Some \<lparr>position = (0, 0, 0), rotation = (0, 0, 0)\<rparr>"
    and "moveQueue (finishMove (startMove mv sp s)) = moveQueue s"
    and "onMoveComplete_calls (finishMove (startMove mv sp s)) = onMoveComplete_calls s @ [mv]"
  using assms by (simp_all add: startMove_eq finishMove_eq)

lemma play_queue:
  "play qs (s\<lparr>moveQueue := q\<rparr>) = (play qs s)\<lparr>moveQueue := q\<rparr>"
  by (induction qs arbitrary: s) (simp_all add: startMove_queue finishMove_queue)

lemma play_fields:
  assumes "pivotRef s \<noteq> None" and "\<not> isAnimating s" and "currentMove s = None"
  shows "onMoveComplete_calls (play qs s) = onMoveComplete_calls s @ map qmove qs
         \<and> \<not> isAnimating (play qs s) \<and> currentMove (play qs s) = None
         \<and> pivotRef (play qs s) \<noteq> None \<and> moveQueue (play qs s) = moveQueue s"
  using assms
proof (induction qs arbitrary: s)
  case Nil
  then show ?case by simp
next
  case (Cons q rest)
  from Cons.prems(1) obtain pv where pv: "pivotRef s = Some pv" by auto
  let ?t = "finishMove (startMove (qmove q) (speed q) s)"
  have "pivotRef ?t \<noteq> None" "\<not> isAnimating ?t" "currentMove ?t = None"
    using start_finish_fields [OF pv] by simp_all
  from Cons.IH [OF this] start_finish_fields(4,5) [OF pv, of "qmove q" "speed q"]
  show ?case by simp
qed

lemma play_angle:
  assumes "pivotRef t \<noteq> None"
  shows "\<exists>a'. play qs (t\<lparr>currentAngle := a\<rparr>) = (play qs t)\<lparr>currentAngle := a'\<rparr>"
proof (cases qs)
  case Nil
  then show ?thesis by auto
next
  case (Cons q rest)
  have "play qs (t\<lparr>currentAngle := a\<rparr>) = (play qs t)\<lparr>currentAngle := currentAngle (play qs t)\<rparr>"
    using assms Cons by (simp add: startMove_angle)
  then show ?thesis by blast
qed

lemma start_and_finish:
  assumes idle: "\<not> isAnimating s" and pv: "pivotRef s = Some pv"
    and q: "moveQueue s = q # rest" and sp: "0 < speed q" and d: "0 < delta"
  shows "\<exists>n a. frames n delta s =
            (finishMove (startMove (qmove q) (speed q) (s\<lparr>moveQueue := rest\<rparr>)))\<lparr>currentAngle := a\<rparr>"
proof -
  let ?s1 = "startMove (qmove q) (speed q) (s\<lparr>moveQueue := rest\<rparr>)"
  have u: "useFrame delta s = ?s1"
    using useFrame_idle [OF idle, of delta] q by simp
  have an: "isAnimating ?s1" and cm: "currentMove ?s1 = Some q"
    and pv1: "pivotRef ?s1 = Some (pv\<lparr>position := (0, 0, 0), rotation := (0, 0, 0)\<rparr>)"
    and a0: "currentAngle ?s1 = 0"
    using pv by (simp_all add: startMove_eq)
  have tt: "toward_target q (currentAngle ?s1)"
    unfolding a0 by (simp add: toward_target_def)
  from tick_finishes [OF an cm pv1 d sp tt] obtain n a' where
    "frames (Suc n) delta ?s1 = (finishMove ?s1)\<lparr>currentAngle := a'\<rparr>" by blast
  then have "frames (Suc (Suc n)) delta s = (finishMove ?s1)\<lparr>currentAngle := a'\<rparr>"
    using u by (simp only: frames_Suc [of "Suc n" delta s])
  then show ?thesis by blast
qed

lemma drain_idle:
  assumes d: "0 < delta"
  shows "\<not> isAnimating s \<Longrightarrow> currentMove s = None \<Longrightarrow> pivotRef s \<noteq> None \<Longrightarrow>
         moveQueue s = qs \<Longrightarrow> list_all (\<lambda>q. 0 < speed q) qs \<Longrightarrow>
         \<exists>n a. frames n delta s = (play qs (s\<lparr>moveQueue := []\<rparr>))\<lparr>currentAngle := a\<rparr>"
proof (induction qs arbitrary: s)
  case Nil
  have "frames 0 delta s = (play [] (s\<lparr>moveQueue := []\<rparr>))\<lparr>currentAngle := currentAngle s\<rparr>"
    using Nil.prems(4) by (simp add: frames_def)
  then show ?case by blast
next
  case (Cons q rest)
  from Cons.prems(3) obtain pv where pv: "pivotRef s = Some pv" by auto
  have sp: "0 < speed q" and sps: "list_all (\<lambda>q. 0 < speed q) rest"
    using Cons.prems(5) by simp_all
  let ?t = "finishMove (startMove (qmove q) (speed q) s)"
  from start_and_finish [OF Cons.prems(1) pv Cons.prems(4) sp d] obtain n1 a1 where
    n1: "frames n1 delta s =
           (finishMove (startMove (qmove q) (speed q) (s\<lparr>moveQueue := rest\<rparr>)))\<lparr>currentAngle := a1\<rparr>"
    by blast
  let ?s2 = "frames n1 delta s"
  have s2: "?s2 = ?t\<lparr>moveQueue := rest, currentAngle := a1\<rparr>"
    unfolding n1 by (simp add: startMove_queue finishMove_queue)
  have f: "\<not> isAnimating ?s2" "currentMove ?s2 = None" "pivotRef ?s2 \<noteq> None" "moveQueue ?s2 = rest"
    unfolding s2 using start_finish_fields [OF pv, of "qmove q" "speed q"] by simp_all
  from Cons.IH [OF f sps] obtain n2 a2 where
    n2: "frames n2 delta ?s2 = (play rest (?s2\<lparr>moveQueue := []\<rparr>))\<lparr>currentAngle := a2\<rparr>" by blast
  have pt: "pivotRef (finishMove (startMove (qmove q) (speed q) (s\<lparr>moveQueue := []\<rparr>))) \<noteq> None"
    using start_finish_fields(3) [of "s\<lparr>moveQueue := []\<rparr>" pv "qmove q" "speed q"] pv by simp
  have "?s2\<lparr>moveQueue := []\<rparr> =
          (finishMove (startMove (qmove q) (speed q) (s\<lparr>moveQueue := []\<rparr>)))\<lparr>currentAngle := a1\<rparr>"
    unfolding s2 by (simp add: startMove_queue finishMove_queue)
  with play_angle [OF pt, of rest a1] obtain a3 where
    "play rest (?s2\<lparr>moveQueue := []\<rparr>) = (play (q # rest) (s\<lparr>moveQueue := []\<rparr>))\<lparr>currentAngle := a3\<rparr>"
    by auto
  with n2 have "frames (n1 + n2) delta s = (play (q # rest) (s\<lparr>moveQueue := []\<rparr>))\<lparr>currentAngle := a2\<rparr>"
    by (simp add: frames_add)
  then show ?case by blast
qed

lemma drain:
  assumes d: "0 < delta" and mi: "machine_inv s" and ai: "angle_inv s"
  shows "\<exists>n. \<not> isAnimating (frames n delta s) \<and> moveQueue (frames n delta s) = []
             \<and> onMoveComplete_calls (frames n delta s) = timeline s"
proof -
  have idle_case: "\<exists>n. \<not> isAnimating (frames n delta t) \<and> moveQueue (frames n delta t) = []
             \<and> onMoveComplete_calls (frames n delta t) = onMoveComplete_calls t @ map qmove (moveQueue t)"
    if t: "\<not> isAnimating t" "currentMove t = None" "pivotRef t \<noteq> None"
       "list_all (\<lambda>q. 0 < speed q) (moveQueue t)" for t
  proof -
    from drain_idle [OF d t(1,2,3) refl t(4)] obtain n a where
      n: "frames n delta t = (play (moveQueue t) (t\<lparr>moveQueue := []\<rparr>))\<lparr>currentAngle := a\<rparr>" by blast
    have "pivotRef (t\<lparr>moveQueue := []\<rparr>) \<noteq> None" "\<not> isAnimating (t\<lparr>moveQueue := []\<rparr>)"
      "currentMove (t\<lparr>moveQueue := []\<rparr>) = None" using t by simp_all
    from play_fields [OF this, of "moveQueue t"] show ?thesis
      unfolding n [symmetric] using n by (intro exI [of _ n]) simp
  qed
  show ?thesis
  proof (cases "isAnimating s")
    case False
    then have "currentMove s = None" "pivotRef s \<noteq> None" "list_all (\<lambda>q. 0 < speed q) (moveQueue s)"
      using mi ai by (simp_all add: machine_inv_def angle_inv_def)
    from idle_case [OF False this] show ?thesis
      using \<open>currentMove s = None\<close> by (simp add: timeline_def in_flight_def)
  next
    case True
    then obtain cm pv where cm: "currentMove s = Some cm" and pv: "pivotRef s = Some pv"
      using mi by (auto simp: machine_inv_def)
    have sp: "0 < speed cm" and tt: "toward_target cm (currentAngle s)"
      and qs: "list_all (\<lambda>q. 0 < speed q) (moveQueue s)"
      using ai cm by (simp_all add: angle_inv_def)
    from tick_finishes [OF True cm pv d sp tt] obtain n1 a1 where
      n1: "frames (Suc n1) delta s = (finishMove s)\<lparr>currentAngle := a1\<rparr>" by blast
    let ?t = "frames (Suc n1) delta s"
    have t: "\<not> isAnimating ?t" "currentMove ?t = None" "pivotRef ?t \<noteq> None"
      "list_all (\<lambda>q. 0 < speed q) (moveQueue ?t)"
      and tc: "onMoveComplete_calls ?t = onMoveComplete_calls s @ [qmove cm]"
      and tq: "moveQueue ?t = moveQueue s"
      unfolding n1 using cm pv qs by (simp_all add: finishMove_eq)
    from idle_case [OF t] obtain n2 where
      "\<not> isAnimating (frames n2 delta ?t) \<and> moveQueue (frames n2 delta ?t) = []
       \<and> onMoveComplete_calls (frames n2 delta ?t) = onMoveComplete_calls ?t @ map qmove (moveQueue ?t)"
      by blast
    then have "\<not> isAnimating (frames (Suc n1 + n2) delta s) \<and> moveQueue (frames (Suc n1 + n2) delta s) = []
       \<and> onMoveComplete_calls (frames (Suc n1 + n2) delta s) = timeline s"
      unfolding frames_add [of "Suc n1" n2] tc tq using cm by (simp add: timeline_def in_flight_def)
    then show ?thesis by blast
  qed
qed


lemma useFrame_animating_step:
  assumes "machine_inv s" and "isAnimating s"
  shows "moveQueue (useFrame delta s) = moveQueue s \<and>
         (currentMove (useFrame delta s) = currentMove s
            \<and> onMoveComplete_calls (useFrame delta s) = onMoveComplete_calls s
          \<or> currentMove (useFrame delta s) = None \<and> \<not> isAnimating (useFrame delta s)
            \<and> onMoveComplete_calls (useFrame delta s) = onMoveComplete_calls s @ in_flight s)"
proof -
  from assms obtain cm pv where cm: "currentMove s = Some cm" and pv: "pivotRef s = Some pv"
    by (auto simp: machine_inv_def)
  show ?thesis
    using cm pv
    by (simp add: useFrame_animating [OF assms(2) cm pv] Let_def finishMove_eq in_flight_def)
qed

lemma useFrame_idle_step:
  assumes "machine_inv s" and "\<not> isAnimating s"
  shows "onMoveComplete_calls (useFrame delta s) = onMoveComplete_calls s \<and>
         in_flight (useFrame delta s) = map qmove (take 1 (moveQueue s)) \<and>
         moveQueue (useFrame delta s) = drop 1 (moveQueue s)"
proof -
  from assms obtain pv where pv: "pivotRef s = Some pv" and cm: "currentMove s = None"
    by (auto simp: machine_inv_def)
  show ?thesis
    using pv cm
    by (cases "moveQueue s") (simp_all add: useFrame_idle [OF assms(2)] startMove_eq in_flight_def)
qed

text \<open>
  C3. For every list of events from the mounted component (moves added one by one or in
  lists, by gestures, frames in between, also while a move is animating):
  the completed moves, the move in flight and the queued moves, in this order, are exactly
  the moves enqueued so far in enqueue order, so completions are a prefix of the enqueue
  order and no move is completed twice or skipped; the machine is animating exactly when a
  move is in flight; a frame during an animation starts nothing, it either keeps the move
  in flight or completes exactly that move and leaves the machine idle; a frame of the idle
  machine completes nothing and puts the head of the queue in flight; and with positive
  speeds and frame times, some number of further frames completes every enqueued move,
  once each, in enqueue order.
\<close>

theorem move_queue_fifo:
  "timeline (run evs initial_state) = enqueued evs initial_state
   \<and> (isAnimating (run evs initial_state) \<longleftrightarrow> currentMove (run evs initial_state) \<noteq> None)
   \<and> (isAnimating (run evs initial_state) \<longrightarrow>
        moveQueue (useFrame delta (run evs initial_state)) = moveQueue (run evs initial_state)
        \<and> (currentMove (useFrame delta (run evs initial_state)) = currentMove (run evs initial_state)
            \<and> onMoveComplete_calls (useFrame delta (run evs initial_state))
                = onMoveComplete_calls (run evs initial_state)
          \<or> currentMove (useFrame delta (run evs initial_state)) = None
            \<and> \<not> isAnimating (useFrame delta (run evs initial_state))
            \<and> onMoveComplete_calls (useFrame delta (run evs initial_state))
                = onMoveComplete_calls (run evs initial_state) @ in_flight (run evs initial_state)))
   \<and> (\<not> isAnimating (run evs initial_state) \<longrightarrow>
        onMoveComplete_calls (useFrame delta (run evs initial_state))
          = onMoveComplete_calls (run evs initial_state)
        \<and> in_flight (useFrame delta (run evs initial_state))
          = map qmove (take 1 (moveQueue (run evs initial_state)))
        \<and> moveQueue (useFrame delta (run evs initial_state))
          = drop 1 (moveQueue (run evs initial_state)))
   \<and> (list_all valid_event evs \<and> 0 < delta' \<longrightarrow>
        (\<exists>n. \<not> isAnimating (frames n delta' (run evs initial_state))
            \<and> moveQueue (frames n delta' (run evs initial_state)) = []
            \<and> onMoveComplete_calls (frames n delta' (run evs initial_state))
                = enqueued evs initial_state))"
proof -
  let ?s = "run evs initial_state"
  have t: "timeline ?s = enqueued evs initial_state" and mi: "machine_inv ?s"
    using run_timeline [OF machine_inv_initial, of evs] by (simp_all add: timeline_initial)
  have c2: "isAnimating ?s \<longleftrightarrow> currentMove ?s \<noteq> None"
    using mi by (simp add: machine_inv_def)
  have c5: "\<exists>n. \<not> isAnimating (frames n delta' ?s) \<and> moveQueue (frames n delta' ?s) = []
            \<and> onMoveComplete_calls (frames n delta' ?s) = enqueued evs initial_state"
    if "list_all valid_event evs" and "0 < delta'"
    using drain [OF that(2) mi angle_inv_run [OF angle_inv_initial that(1)]] t by simp
  show ?thesis
    using t c2 c5 useFrame_animating_step [OF mi, of delta] useFrame_idle_step [OF mi, of delta]
    by blast
qed

theorem move_queue_fifo_witness:
  "list_all valid_event
     [AddMoves [\<lparr>axis = X, slice = 1, direction = Neg1\<rparr>, \<lparr>axis = Y, slice = 1, direction = Neg1\<rparr>] 6,
      Frame (1 / 60), AddMove \<lparr>axis = Z, slice = 1, direction = Neg1\<rparr> (3 / 2)]
   \<and> isAnimating (run
     [AddMoves [\<lparr>axis = X, slice = 1, direction = Neg1\<rparr>, \<lparr>axis = Y, slice = 1, direction = Neg1\<rparr>] 6,
      Frame (1 / 60), AddMove \<lparr>axis = Z, slice = 1, direction = Neg1\<rparr> (3 / 2)] initial_state)
   \<and> \<not> isAnimating (run
     [AddMoves [\<lparr>axis = X, slice = 1, direction = Neg1\<rparr>, \<lparr>axis = Y, slice = 1, direction = Neg1\<rparr>] 6]
        initial_state)
   \<and> in_flight (run
     [AddMoves [\<lparr>axis = X, slice = 1, direction = Neg1\<rparr>, \<lparr>axis = Y, slice = 1, direction = Neg1\<rparr>] 6,
      Frame (1 / 60)] initial_state) = [\<lparr>axis = X, slice = 1, direction = Neg1\<rparr>]
   \<and> moveQueue (useFrame (1 / 60) (run
     [AddMoves [\<lparr>axis = X, slice = 1, direction = Neg1\<rparr>, \<lparr>axis = Y, slice = 1, direction = Neg1\<rparr>] 6,
      Frame (1 / 60), AddMove \<lparr>axis = Z, slice = 1, direction = Neg1\<rparr> (3 / 2)] initial_state))
       = [\<lparr>qmove = \<lparr>axis = Y, slice = 1, direction = Neg1\<rparr>, speed = 6\<rparr>,
          \<lparr>qmove = \<lparr>axis = Z, slice = 1, direction = Neg1\<rparr>, speed = 3 / 2\<rparr>]
   \<and> (\<exists>n. \<not> isAnimating (frames n (1 / 60) (run
     [AddMoves [\<lparr>axis = X, slice = 1, direction = Neg1\<rparr>, \<lparr>axis = Y, slice = 1, direction = Neg1\<rparr>] 6,
      Frame (1 / 60), AddMove \<lparr>axis = Z, slice = 1, direction = Neg1\<rparr> (3 / 2)] initial_state))
          \<and> moveQueue (frames n (1 / 60) (run
     [AddMoves [\<lparr>axis = X, slice = 1, direction = Neg1\<rparr>, \<lparr>axis = Y, slice = 1, direction = Neg1\<rparr>] 6,
      Frame (1 / 60), AddMove \<lparr>axis = Z, slice = 1, direction = Neg1\<rparr> (3 / 2)] initial_state)) = []
          \<and> onMoveComplete_calls (frames n (1 / 60) (run
     [AddMoves [\<lparr>axis = X, slice = 1, direction = Neg1\<rparr>, \<lparr>axis = Y, slice = 1, direction = Neg1\<rparr>] 6,
      Frame (1 / 60), AddMove \<lparr>axis = Z, slice = 1, direction = Neg1\<rparr> (3 / 2)] initial_state))
             = [\<lparr>axis = X, slice = 1, direction = Neg1\<rparr>, \<lparr>axis = Y, slice = 1, direction = Neg1\<rparr>,
                \<lparr>axis = Z, slice = 1, direction = Neg1\<rparr>])"
proof -
  let ?R = "\<lparr>axis = X, slice = 1, direction = Neg1\<rparr>"
  let ?U = "\<lparr>axis = Y, slice = 1, direction = Neg1\<rparr>"
  let ?F = "\<lparr>axis = Z, slice = 1, direction = Neg1\<rparr>"
  let ?e1 = "[AddMoves [?R, ?U] 6]"
  let ?e2 = "[AddMoves [?R, ?U] 6, Frame (1 / 60)]"
  let ?e3 = "[AddMoves [?R, ?U] 6, Frame (1 / 60), AddMove ?F (3 / 2)]"
  have v: "list_all valid_event ?e3" by simp
  have d: "(0::real) < 1 / 60" by simp
  have s1: "run ?e1 initial_state =
      initial_state\<lparr>moveQueue := [\<lparr>qmove = ?R, speed = 6\<rparr>, \<lparr>qmove = ?U, speed = 6\<rparr>]\<rparr>"
    by (simp add: run_def addMoves_queue initial_fields)
  have idle1: "\<not> isAnimating (run ?e1 initial_state)"
    by (simp add: s1 initial_fields)
  have q1: "moveQueue (run ?e1 initial_state) = [\<lparr>qmove = ?R, speed = 6\<rparr>, \<lparr>qmove = ?U, speed = 6\<rparr>]"
    by (simp add: s1)
  have r2: "run ?e2 initial_state = useFrame (1 / 60) (run ?e1 initial_state)"
    by (simp add: run_def)
  have f2: "in_flight (run ?e2 initial_state) = [?R]"
    unfolding r2 using move_queue_fifo [of ?e1 "1 / 60" 1] idle1 by (simp add: q1)
  have q2: "moveQueue (run ?e2 initial_state) = [\<lparr>qmove = ?U, speed = 6\<rparr>]"
    unfolding r2 using move_queue_fifo [of ?e1 "1 / 60" 1] idle1 by (simp add: q1)
  have an2: "isAnimating (run ?e2 initial_state)"
    using move_queue_fifo [of ?e2 "1 / 60" 1] f2 by (auto simp: in_flight_def)
  have r3: "run ?e3 initial_state = addMove ?F (3 / 2) (run ?e2 initial_state)"
    by (simp add: run_def)
  have an3: "isAnimating (run ?e3 initial_state)"
    unfolding r3 using an2 by (simp add: addMove_def)
  have q3: "moveQueue (run ?e3 initial_state) =
      [\<lparr>qmove = ?U, speed = 6\<rparr>, \<lparr>qmove = ?F, speed = 3 / 2\<rparr>]"
    unfolding r3 by (simp add: addMove_def q2)
  have q4: "moveQueue (useFrame (1 / 60) (run ?e3 initial_state)) =
      [\<lparr>qmove = ?U, speed = 6\<rparr>, \<lparr>qmove = ?F, speed = 3 / 2\<rparr>]"
    using move_queue_fifo [of ?e3 "1 / 60" 1] an3 q3 by simp
  have en: "enqueued ?e3 initial_state = [?R, ?U, ?F]" by simp
  have live: "\<exists>n. \<not> isAnimating (frames n (1 / 60) (run ?e3 initial_state))
          \<and> moveQueue (frames n (1 / 60) (run ?e3 initial_state)) = []
          \<and> onMoveComplete_calls (frames n (1 / 60) (run ?e3 initial_state)) = [?R, ?U, ?F]"
    using move_queue_fifo [of ?e3 1 "1 / 60"] v d unfolding en by blast
  show ?thesis using v an3 idle1 f2 q4 live by blast
qed

section \<open>A sequence of moves and its inverse\<close>


lemma quarter_turn_values:
  "quarter_turn X Pos1 = ((1, 0, 0), (0, 0, - 1), (0, 1, 0))"
  "quarter_turn X Neg1 = ((1, 0, 0), (0, 0, 1), (0, - 1, 0))"
  "quarter_turn Y Pos1 = ((0, 0, 1), (0, 1, 0), (- 1, 0, 0))"
  "quarter_turn Y Neg1 = ((0, 0, - 1), (0, 1, 0), (1, 0, 0))"
  "quarter_turn Z Pos1 = ((0, - 1, 0), (1, 0, 0), (0, 0, 1))"
  "quarter_turn Z Neg1 = ((0, 1, 0), (- 1, 0, 0), (0, 0, 1))"
  by (simp_all add: quarter_turn_def)

lemma euler_round_trip:
  "N \<in> set rotations24 \<Longrightarrow> euler_matrix (euler_of_matrix N) = N"
  unfolding rotations24_def
  by (auto simp: atan2_def clamp_def Let_def)

lemma quarter_turn_closed:
  "N \<in> set rotations24 \<Longrightarrow> mat_mul (quarter_turn ax d) N \<in> set rotations24"
  unfolding rotations24_def
  by (cases ax; cases d) (auto simp: quarter_turn_values)

lemma euler_snapped:
  "N \<in> set rotations24 \<Longrightarrow> snap_rotation (euler_of_matrix N) = euler_of_matrix N"
  unfolding rotations24_def
  by (auto simp: atan2_def clamp_def snap_rotation_def round_minus_one)


lemma euler_in_range:
  "N \<in> set rotations24 \<Longrightarrow> in_range (euler_of_matrix N)"
  unfolding rotations24_def set_simps insert_iff empty_iff
  by (elim disjE; simp add: atan2_def clamp_def in_range_def)

lemma compose_id_left: "compose_tf identity_tf T = T"
proof -
  obtain R t where T: "T = (R, t)" by (cases T)
  obtain r1 r2 r3 where R: "R = (r1, r2, r3)" by (cases R)
  obtain a b c where r1: "r1 = (a, b, c)" by (cases r1)
  obtain d e f where r2: "r2 = (d, e, f)" by (cases r2)
  obtain g h i where r3: "r3 = (g, h, i)" by (cases r3)
  obtain x y z where t: "t = (x, y, z)" by (cases t)
  show ?thesis by (simp add: T R r1 r2 r3 t identity_tf_def)
qed

lemma inverse_id: "inverse_tf identity_tf = identity_tf"
  by (simp add: identity_tf_def)

lemma local_tf_zero: "local_tf \<lparr>position = (0, 0, 0), rotation = (0, 0, 0)\<rparr> = identity_tf"
  by (simp add: local_tf_def identity_tf_def)

lemma vec_add_zero: "vec_add v (0, 0, 0) = v"
  by (cases v rule: prod_cases3) simp

lemma attach_pivot_rest:
  assumes "parent m = Scene"
  shows "attach (Some \<lparr>position = (0, 0, 0), rotation = (0, 0, 0)\<rparr>) Pivot m =
         m\<lparr>rotation := euler_of_matrix (euler_matrix (rotation m)), parent := Pivot\<rparr>"
proof -
  have "compose_tf (inverse_tf (parent_tf (Some \<lparr>position = (0, 0, 0), rotation = (0, 0, 0)\<rparr>) Pivot))
          (world_tf (Some \<lparr>position = (0, 0, 0), rotation = (0, 0, 0)\<rparr>) m)
        = (euler_matrix (rotation m), position m)"
    using assms
    by (simp only: world_tf_def parent_tf_def parent_node.case option.case local_tf_zero
        inverse_id compose_id_left) (simp add: local_tf_def)
  then show ?thesis by (simp add: attach_def)
qed

lemma attach_scene_pivot:
  assumes "parent m = Pivot" and that: "position pv = (0, 0, 0)"
  shows "attach (Some pv) Scene m =
         m\<lparr>position := mat_vec (euler_matrix (rotation pv)) (position m),
           rotation := euler_of_matrix (mat_mul (euler_matrix (rotation pv)) (euler_matrix (rotation m))),
           parent := Scene\<rparr>"
proof -
  have "compose_tf (inverse_tf (parent_tf (Some pv) Scene)) (world_tf (Some pv) m)
        = (mat_mul (euler_matrix (rotation pv)) (euler_matrix (rotation m)),
           mat_vec (euler_matrix (rotation pv)) (position m))"
    using assms
    by (simp only: world_tf_def parent_tf_def parent_node.case option.case
        inverse_id compose_id_left local_tf_def compose_tf.simps vec_add_zero)
  then show ?thesis by (simp add: attach_def)
qed

lemma turn_mesh_eq:
  assumes "parent m = Scene"
  shows "turn_mesh mv m =
     snap_mesh (m\<lparr>position := mat_vec (quarter_turn (axis mv) (direction mv)) (position m),
                  rotation := euler_of_matrix (mat_mul (quarter_turn (axis mv) (direction mv))
                                (euler_matrix (euler_of_matrix (euler_matrix (rotation m))))),
                  parent := Scene\<rparr>)"
  unfolding turn_mesh_def attach_pivot_rest [OF assms]
  by (subst attach_scene_pivot) (simp_all add: quarter_turn_def)


lemma snap_of_int: "g \<noteq> 0 \<Longrightarrow> snap (of_int k * g) g = of_int k * g"
  by (simp add: snap_def)

lemma snap_neg:
  assumes "g \<noteq> 0" and "snap x g = x"
  shows "snap (- x) g = - x"
proof -
  have x: "x = of_int (round (x / g)) * g" using assms(2) by (simp add: snap_def)
  have "- x = of_int (- round (x / g)) * g" by (subst x) simp
  then show ?thesis using snap_of_int [OF assms(1), of "- round (x / g)"] by simp
qed

lemma mat_vec_quarter:
  "mat_vec (quarter_turn X Pos1) (x, y, z) = (x, - z, y)"
  "mat_vec (quarter_turn X Neg1) (x, y, z) = (x, z, - y)"
  "mat_vec (quarter_turn Y Pos1) (x, y, z) = (z, y, - x)"
  "mat_vec (quarter_turn Y Neg1) (x, y, z) = (- z, y, x)"
  "mat_vec (quarter_turn Z Pos1) (x, y, z) = (- y, x, z)"
  "mat_vec (quarter_turn Z Neg1) (x, y, z) = (y, - x, z)"
  by (simp_all add: quarter_turn_values)

lemma on_grid_turn:
  assumes "on_grid p"
  shows "on_grid (mat_vec (quarter_turn ax d) p)"
proof -
  obtain x y z where p: "p = (x, y, z)" by (cases p)
  have g: "1 + CUBE_GAP \<noteq> 0" by (simp add: CUBE_GAP_def)
  show ?thesis
    using assms snap_neg [OF g] unfolding p
    by (cases ax; cases d) (simp_all add: mat_vec_quarter on_grid_def)
qed

lemma axis_component_turn:
  "axis_component ax (mat_vec (quarter_turn ax d) p) = axis_component ax p"
proof -
  obtain x y z where p: "p = (x, y, z)" by (cases p)
  show ?thesis unfolding p by (cases ax; cases d) (simp_all add: mat_vec_quarter)
qed

lemma mat_vec_turn_back:
  "mat_vec (quarter_turn ax (negate d)) (mat_vec (quarter_turn ax d) p) = p"
proof -
  obtain x y z where p: "p = (x, y, z)" by (cases p)
  show ?thesis unfolding p by (cases ax; cases d) (simp_all add: mat_vec_quarter)
qed

lemma mat_mul_turn_back:
  "mat_mul (quarter_turn ax (negate d)) (mat_mul (quarter_turn ax d) N) = N"
proof -
  obtain r1 r2 r3 where R: "N = (r1, r2, r3)" by (cases N)
  obtain a b c where r1: "r1 = (a, b, c)" by (cases r1)
  obtain e f g where r2: "r2 = (e, f, g)" by (cases r2)
  obtain h i j where r3: "r3 = (h, i, j)" by (cases r3)
  show ?thesis unfolding R r1 r2 r3
    by (cases ax; cases d) (simp_all add: quarter_turn_values)
qed

lemma snap_mesh_fix:
  assumes "on_grid (position m)" and "snap_rotation (rotation m) = rotation m"
  shows "snap_mesh m = m"
proof -
  obtain px py pz where p: "position m = (px, py, pz)" by (cases "position m")
  obtain rx ry rz where r: "rotation m = (rx, ry, rz)" by (cases "rotation m")
  show ?thesis
    using assms unfolding snap_mesh_def p r on_grid_def snap_rotation_def
    by simp (metis p r object3d.surjective object3d.update_convs(1) object3d.update_convs(2))
qed

lemma turn_mesh_rest:
  assumes "rest_mesh m"
  shows "turn_mesh mv m =
     m\<lparr>position := mat_vec (quarter_turn (axis mv) (direction mv)) (position m),
       rotation := euler_of_matrix
                     (mat_mul (quarter_turn (axis mv) (direction mv)) (euler_matrix (rotation m)))\<rparr>"
proof -
  let ?Q = "quarter_turn (axis mv) (direction mv)"
  let ?N = "euler_matrix (rotation m)"
  let ?m' = "m\<lparr>position := mat_vec ?Q (position m),
       rotation := euler_of_matrix (mat_mul ?Q ?N), parent := Scene\<rparr>"
  from assms have sc: "parent m = Scene" and og: "on_grid (position m)"
    and N: "?N \<in> set rotations24"
    by (simp_all add: rest_mesh_def)
  have e: "euler_matrix (euler_of_matrix ?N) = ?N"
    by (rule euler_round_trip [OF N])
  have "turn_mesh mv m = snap_mesh ?m'"
    by (simp add: turn_mesh_eq [OF sc] e)
  also have "\<dots> = ?m'"
    by (rule snap_mesh_fix)
       (simp_all add: on_grid_turn [OF og] euler_snapped [OF quarter_turn_closed [OF N]])
  also have "\<dots> = m\<lparr>position := mat_vec ?Q (position m), rotation := euler_of_matrix (mat_mul ?Q ?N)\<rparr>"
    using sc by (cases m) simp
  finally show ?thesis .
qed

lemma rest_mesh_turn:
  assumes "rest_mesh m"
  shows "rest_mesh (turn_mesh mv m)"
    and "axis_component (axis mv) (position (turn_mesh mv m)) = axis_component (axis mv) (position m)"
    and "position (turn_mesh (inverse_move mv) (turn_mesh mv m)) = position m"
    and "euler_matrix (rotation (turn_mesh (inverse_move mv) (turn_mesh mv m)))
           = euler_matrix (rotation m)"
    and "rotation (turn_mesh (inverse_move mv) (turn_mesh mv m))
           = euler_of_matrix (euler_matrix (rotation m))"
proof -
  let ?Q = "quarter_turn (axis mv) (direction mv)"
  let ?N = "euler_matrix (rotation m)"
  from assms have sc: "parent m = Scene" and og: "on_grid (position m)"
    and N: "?N \<in> set rotations24"
    by (simp_all add: rest_mesh_def)
  note t = turn_mesh_rest [OF assms, of mv]
  have N': "mat_mul ?Q ?N \<in> set rotations24" by (rule quarter_turn_closed [OF N])
  have e': "euler_matrix (euler_of_matrix (mat_mul ?Q ?N)) = mat_mul ?Q ?N"
    by (rule euler_round_trip [OF N'])
  show r: "rest_mesh (turn_mesh mv m)"
    unfolding t using sc on_grid_turn [OF og] N' e' euler_snapped [OF N'] euler_in_range [OF N']
    by (simp add: rest_mesh_def)
  show "axis_component (axis mv) (position (turn_mesh mv m)) = axis_component (axis mv) (position m)"
    unfolding t by (simp add: axis_component_turn)
  have rt: "turn_mesh (inverse_move mv) (turn_mesh mv m) =
      m\<lparr>position := position m, rotation := euler_of_matrix ?N\<rparr>"
    unfolding turn_mesh_rest [OF r, of "inverse_move mv"]
    by (simp add: t e' inverse_move_def mat_vec_turn_back mat_mul_turn_back)
  show "position (turn_mesh (inverse_move mv) (turn_mesh mv m)) = position m"
    unfolding rt by simp
  show "rotation (turn_mesh (inverse_move mv) (turn_mesh mv m)) = euler_of_matrix ?N"
    unfolding rt by simp
  show "euler_matrix (rotation (turn_mesh (inverse_move mv) (turn_mesh mv m))) = ?N"
    unfolding rt by (simp add: euler_round_trip [OF N])
qed

text \<open>
  The result of a move on a mesh at rest depends on its pose only: two meshes at rest with
  the same position and the same rotation matrix are turned into the same mesh, whatever
  Euler triples they held.
\<close>

lemma turn_mesh_pose:
  assumes "rest_mesh m" and "rest_mesh m'"
    and "position m = position m'" and "euler_matrix (rotation m) = euler_matrix (rotation m')"
  shows "turn_mesh mv m = turn_mesh mv m'"
proof -
  have "parent m = parent m'" using assms(1,2) by (simp add: rest_mesh_def)
  then show ?thesis
    unfolding turn_mesh_rest [OF assms(1)] turn_mesh_rest [OF assms(2)] assms(3,4)
    by (cases m; cases m') simp
qed

lemma reparent_all_length [simp]: "length (reparent_all f idxs refs) = length refs"
  unfolding reparent_all_def
  by (induction idxs arbitrary: refs) (simp_all split: option.splits)

lemma reparent_all_nth:
  "distinct idxs \<Longrightarrow> i < length refs \<Longrightarrow>
   reparent_all f idxs refs ! i = (if i \<in> set idxs then map_option f (refs ! i) else refs ! i)"
proof (induction idxs arbitrary: refs)
  case Nil
  then show ?case by (simp add: reparent_all_def)
next
  case (Cons a as)
  have d: "distinct as" and na: "a \<notin> set as" using Cons.prems(1) by simp_all
  show ?case
  proof (cases "mesh_at refs a")
    case None
    have "reparent_all f (a # as) refs = reparent_all f as refs"
      using None by (simp add: reparent_all_def)
    moreover have "i = a \<Longrightarrow> refs ! i = None"
      using None Cons.prems(2) by (simp add: mesh_at_def)
    ultimately show ?thesis using Cons.IH [OF d Cons.prems(2)] na by auto
  next
    case (Some m)
    have a: "a < length refs" and ra: "refs ! a = Some m"
      using Some by (simp_all add: mesh_at_def split: if_splits)
    have "reparent_all f (a # as) refs = reparent_all f as (refs[a := Some (f m)])"
      using Some by (simp add: reparent_all_def)
    moreover have "i < length (refs[a := Some (f m)])" using Cons.prems(2) by simp
    ultimately show ?thesis
      using Cons.IH [OF d, of "refs[a := Some (f m)]"] na a ra by (auto simp: nth_list_update)
  qed
qed

lemma world_position_scene:
  "parent m = Scene \<Longrightarrow> getWorldPosition pv m = position m"
  by (simp add: getWorldPosition_def world_tf_def parent_tf_def compose_id_left local_tf_def)

lemma in_slice_scene:
  "parent m = Scene \<Longrightarrow> in_slice pv ax k m = in_slice None ax k m"
  by (simp add: in_slice_def world_position_scene)

lemma zero_pivot: "(pv :: object3d)\<lparr>position := p, rotation := r\<rparr> = \<lparr>position = p, rotation = r\<rparr>"
  by (cases pv) simp

lemma start_finish_refs:
  assumes pv: "pivotRef s = Some pv" and rest: "rest_refs (cubieRefs s)"
  shows "cubieRefs (finishMove (startMove mv sp s)) = turn_all mv (cubieRefs s)"
proof -
  let ?refs = "cubieRefs s"
  let ?idxs = "getCubiesInSlice s (axis mv) (slice mv)"
  let ?F1 = "attach (Some \<lparr>position = (0, 0, 0), rotation = (0, 0, 0)\<rparr>) Pivot"
  let ?F2 = "\<lambda>m. snap_mesh (attach (Some \<lparr>position = (0, 0, 0),
                 rotation = set_axis_component (axis mv) ((pi / 2) * dir_val (direction mv)) (0, 0, 0)\<rparr>)
                 Scene m)"
  have c: "cubieRefs (finishMove (startMove mv sp s)) = reparent_all ?F2 ?idxs (reparent_all ?F1 ?idxs ?refs)"
    using pv by (simp add: startMove_eq finishMove_eq zero_pivot)
  have d: "distinct ?idxs" by (rule getCubiesInSlice_distinct)
  have nth: "reparent_all ?F2 ?idxs (reparent_all ?F1 ?idxs ?refs) ! i = turn_all mv ?refs ! i"
    if i: "i < length ?refs" for i
  proof (cases "?refs ! i")
    case None
    then show ?thesis using i d
      by (simp add: reparent_all_nth turn_all_def turn_ref_def)
  next
    case (Some m)
    have "rest_mesh m" using rest i Some
      by (auto simp: rest_refs_def list_all_length split: option.splits)
    then have sc: "parent m = Scene" by (simp add: rest_mesh_def)
    have mem: "i \<in> set ?idxs \<longleftrightarrow> in_slice None (axis mv) (slice mv) m"
      using i Some in_slice_scene [OF sc, of "pivotRef s" "axis mv" "slice mv"]
      by (simp add: getCubiesInSlice_mem mesh_at_def in_slice_def epsilon_def)
    show ?thesis using i d Some mem
      by (simp add: reparent_all_nth turn_all_def turn_ref_def turn_mesh_def)
  qed
  show ?thesis
    unfolding c
  proof (rule nth_equalityI)
    show "length (reparent_all ?F2 ?idxs (reparent_all ?F1 ?idxs ?refs)) = length (turn_all mv ?refs)"
      by (simp add: turn_all_def)
  next
    fix i
    assume "i < length (reparent_all ?F2 ?idxs (reparent_all ?F1 ?idxs ?refs))"
    then have "i < length ?refs" by simp
    then show "reparent_all ?F2 ?idxs (reparent_all ?F1 ?idxs ?refs) ! i = turn_all mv ?refs ! i"
      by (rule nth)
  qed
qed

lemma in_slice_turn:
  assumes "rest_mesh m"
  shows "in_slice None (axis mv) k (turn_mesh mv m) = in_slice None (axis mv) k m"
proof -
  have "parent m = Scene" "parent (turn_mesh mv m) = Scene"
    using assms rest_mesh_turn(1) [OF assms, of mv] by (simp_all add: rest_mesh_def)
  then show ?thesis
    by (simp add: in_slice_def world_position_scene rest_mesh_turn(2) [OF assms])
qed

lemma in_slice_pose:
  assumes "rest_mesh m" and "rest_mesh m'" and "position m = position m'"
  shows "in_slice None ax k m = in_slice None ax k m'"
  using assms by (simp add: in_slice_def world_position_scene rest_mesh_def)

lemma rest_ref_turn:
  assumes "case r of None \<Rightarrow> True | Some m \<Rightarrow> rest_mesh m"
  shows "case turn_ref mv r of None \<Rightarrow> True | Some m \<Rightarrow> rest_mesh m"
    and "pose (turn_ref (inverse_move mv) (turn_ref mv r)) = pose r"
proof -
  show "case turn_ref mv r of None \<Rightarrow> True | Some m \<Rightarrow> rest_mesh m"
    using assms rest_mesh_turn(1) by (cases r) (simp_all add: turn_ref_def)
  show "pose (turn_ref (inverse_move mv) (turn_ref mv r)) = pose r"
  proof (cases r)
    case None
    then show ?thesis by (simp add: turn_ref_def)
  next
    case (Some m)
    then have rm: "rest_mesh m" using assms by simp
    show ?thesis
      using Some in_slice_turn [OF rm, of mv "slice mv"] rest_mesh_turn(3,4) [OF rm, of mv]
      by (simp add: turn_ref_def pose_def inverse_move_def)
  qed
qed

lemma turn_ref_pose:
  assumes "case r of None \<Rightarrow> True | Some m \<Rightarrow> rest_mesh m"
    and "case r' of None \<Rightarrow> True | Some m \<Rightarrow> rest_mesh m"
    and "pose r = pose r'"
  shows "pose (turn_ref mv r) = pose (turn_ref mv r')"
proof (cases r)
  case None
  then show ?thesis using assms(3) by (cases r') (simp_all add: pose_def turn_ref_def)
next
  case (Some m)
  then obtain m' where r': "r' = Some m'" using assms(3) by (cases r') (simp_all add: pose_def)
  have rm: "rest_mesh m" "rest_mesh m'" using assms(1,2) Some r' by simp_all
  have eq: "position m = position m'" "euler_matrix (rotation m) = euler_matrix (rotation m')"
    using assms(3) Some r' by (simp_all add: pose_def)
  show ?thesis
    using Some r' eq turn_mesh_pose [OF rm eq, of mv] in_slice_pose [OF rm eq(1), of "axis mv" "slice mv"]
    by (simp add: turn_ref_def pose_def)
qed

lemma rest_refs_turn_all: "rest_refs refs \<Longrightarrow> rest_refs (turn_all mv refs)"
  using rest_ref_turn(1) by (simp add: rest_refs_def turn_all_def list_all_iff)

lemma turn_all_inverse_pose:
  "rest_refs refs \<Longrightarrow> map pose (turn_all (inverse_move mv) (turn_all mv refs)) = map pose refs"
  unfolding rest_refs_def turn_all_def list_all_iff
  by (simp add: rest_ref_turn(2))

lemma turn_all_pose:
  "rest_refs refs \<Longrightarrow> rest_refs refs' \<Longrightarrow> map pose refs = map pose refs' \<Longrightarrow>
   map pose (turn_all mv refs) = map pose (turn_all mv refs')"
proof (induction refs arbitrary: refs')
  case Nil
  then show ?case by (simp add: turn_all_def)
next
  case (Cons r refs)
  from Cons.prems(3) obtain r' rest' where r': "refs' = r' # rest'"
    by (cases refs') simp_all
  have "pose (turn_ref mv r) = pose (turn_ref mv r')"
    using Cons.prems unfolding r' by (intro turn_ref_pose) (simp_all add: rest_refs_def)
  moreover have "map pose (turn_all mv refs) = map pose (turn_all mv rest')"
    using Cons.prems unfolding r' by (intro Cons.IH) (simp_all add: rest_refs_def)
  ultimately show ?case by (simp add: r' turn_all_def)
qed

lemma rest_refs_fold: "rest_refs refs \<Longrightarrow> rest_refs (fold turn_all ms refs)"
  by (induction ms arbitrary: refs) (simp_all add: rest_refs_turn_all)

lemma fold_turn_inverse:
  "rest_refs refs \<Longrightarrow> map pose (fold turn_all (ms @ inverse_moves ms) refs) = map pose refs"
proof (induction ms arbitrary: refs)
  case Nil
  then show ?case by (simp add: inverse_moves_def)
next
  case (Cons m ms)
  let ?A = "turn_all m refs"
  let ?B = "fold turn_all (ms @ inverse_moves ms) ?A"
  have rA: "rest_refs ?A" by (rule rest_refs_turn_all [OF Cons.prems])
  have rB: "rest_refs ?B" by (rule rest_refs_fold [OF rA])
  have "fold turn_all ((m # ms) @ inverse_moves (m # ms)) refs = turn_all (inverse_move m) ?B"
    by (simp add: inverse_moves_def)
  also have "map pose (turn_all (inverse_move m) ?B) = map pose (turn_all (inverse_move m) ?A)"
    by (rule turn_all_pose [OF rB rA Cons.IH [OF rA]])
  also have "\<dots> = map pose refs" by (rule turn_all_inverse_pose [OF Cons.prems])
  finally show ?case .
qed

lemma play_refs:
  "pivotRef s \<noteq> None \<Longrightarrow> rest_refs (cubieRefs s) \<Longrightarrow>
   cubieRefs (play qs s) = fold turn_all (map qmove qs) (cubieRefs s)"
proof (induction qs arbitrary: s)
  case Nil
  then show ?case by simp
next
  case (Cons q rest)
  from Cons.prems(1) obtain pv where pv: "pivotRef s = Some pv" by auto
  let ?t = "finishMove (startMove (qmove q) (speed q) s)"
  have c: "cubieRefs ?t = turn_all (qmove q) (cubieRefs s)"
    by (rule start_finish_refs [OF pv Cons.prems(2)])
  have "pivotRef ?t \<noteq> None" using start_finish_fields(3) [OF pv] by simp
  moreover have "rest_refs (cubieRefs ?t)"
    unfolding c by (rule rest_refs_turn_all [OF Cons.prems(2)])
  ultimately show ?case using Cons.IH [of ?t] c by simp
qed

lemma settle_play:
  assumes d: "0 < delta"
    and idle: "\<not> isAnimating s" "currentMove s = None" "pivotRef s \<noteq> None" "moveQueue s = []"
    and rest: "rest_refs (cubieRefs s)"
    and sp: "list_all (\<lambda>q. 0 < speed q) qs"
  shows "\<exists>n. \<not> isAnimating (frames n delta (s\<lparr>moveQueue := qs\<rparr>))
            \<and> currentMove (frames n delta (s\<lparr>moveQueue := qs\<rparr>)) = None
            \<and> pivotRef (frames n delta (s\<lparr>moveQueue := qs\<rparr>)) \<noteq> None
            \<and> moveQueue (frames n delta (s\<lparr>moveQueue := qs\<rparr>)) = []
            \<and> onMoveComplete_calls (frames n delta (s\<lparr>moveQueue := qs\<rparr>))
                 = onMoveComplete_calls s @ map qmove qs
            \<and> cubieRefs (frames n delta (s\<lparr>moveQueue := qs\<rparr>))
                 = fold turn_all (map qmove qs) (cubieRefs s)"
proof -
  let ?s = "s\<lparr>moveQueue := qs\<rparr>"
  have i: "\<not> isAnimating ?s" "currentMove ?s = None" "pivotRef ?s \<noteq> None" "moveQueue ?s = qs"
    using idle by simp_all
  from drain_idle [OF d i sp] obtain n a where
    n: "frames n delta ?s = (play qs (?s\<lparr>moveQueue := []\<rparr>))\<lparr>currentAngle := a\<rparr>" by blast
  have e: "?s\<lparr>moveQueue := []\<rparr> = s" using idle(4) by simp
  have n': "frames n delta ?s = (play qs s)\<lparr>currentAngle := a\<rparr>"
    using n unfolding e .
  show ?thesis
    using play_fields [OF idle(3) idle(1) idle(2), of qs] play_refs [OF idle(3) rest, of qs] idle(4)
    by (intro exI [of _ n]) (simp add: n')
qed

lemma idle_initial:
  "\<not> isAnimating initial_state" "currentMove initial_state = None"
  "pivotRef initial_state \<noteq> None" "moveQueue initial_state = []"
  "onMoveComplete_calls initial_state = []"
  by (simp_all add: initial_state_def)


lemma rest_initial: "rest_refs (cubieRefs initial_state)"
  by (simp add: rest_refs_def initial_state_def initialCubies_def loop_range_def push_cubie_def
      rest_mesh_def on_grid_def snap_def CUBE_GAP_def round_minus_one snap_rotation_def
      in_range_def rotations24_def)

lemma quarter_multiple:
  assumes "of_int (round (r / (pi / 2))) * (pi / 2) = r" and "\<bar>r\<bar> \<le> b * (pi / 2)" and "b \<in> {1, 2}"
  shows "r \<in> {- pi, - (pi / 2), 0, pi / 2, pi}"
proof -
  define k where "k = round (r / (pi / 2))"
  have r: "r = of_int k * (pi / 2)" using assms(1) by (simp add: k_def)
  have "\<bar>of_int k * (pi / 2)\<bar> \<le> 2 * (pi / 2)"
    using assms(2,3) r pi_gt_zero by (auto simp del: pi_gt_zero)
  then have "\<bar>real_of_int k\<bar> * (pi / 2) \<le> 2 * (pi / 2)"
    by (simp add: abs_mult)
  then have "\<bar>real_of_int k\<bar> \<le> 2"
    using pi_gt_zero by (simp del: pi_gt_zero)
  then have "k \<in> {- 2, - 1, 0, 1, 2}" by (auto simp: abs_le_iff)
  then show ?thesis unfolding r by auto
qed


lemma cos_quarter:
  assumes "r \<in> {- pi, - (pi / 2), 0, pi / 2, pi}" and "cos r = 1"
  shows "r = 0"
proof -
  consider "r = - pi" | "r = - (pi / 2)" | "r = 0" | "r = pi / 2" | "r = pi"
    using assms(1) by auto
  then show ?thesis
  proof cases
    case 1
    show ?thesis using assms(2) unfolding 1 by simp
  next
    case 2
    show ?thesis using assms(2) unfolding 2 by simp
  next
    case 3
    then show ?thesis .
  next
    case 4
    show ?thesis using assms(2) unfolding 4 by simp
  next
    case 5
    show ?thesis using assms(2) unfolding 5 by simp
  qed
qed

text \<open>Within the ranges, the only snapped Euler triple of the identity is zero.\<close>

lemma identity_triple:
  assumes "rest_mesh m" and "euler_matrix (rotation m) = ((1, 0, 0), (0, 1, 0), (0, 0, 1))"
  shows "rotation m = (0, 0, 0)"
proof -
  obtain rx ry rz where r: "rotation m = (rx, ry, rz)" by (cases "rotation m")
  from assms(1) have sn: "of_int (round (rx / (pi / 2))) * (pi / 2) = rx"
      "of_int (round (ry / (pi / 2))) * (pi / 2) = ry"
      "of_int (round (rz / (pi / 2))) * (pi / 2) = rz"
    and rg: "\<bar>rx\<bar> \<le> pi" "\<bar>ry\<bar> \<le> pi / 2" "\<bar>rz\<bar> \<le> pi"
    by (simp_all add: rest_mesh_def r snap_rotation_def in_range_def)
  have m13: "sin ry = 0" and m11: "cos ry * cos rz = 1" and m33: "cos rx * cos ry = 1"
    using assms(2) by (simp_all add: r Let_def)
  have "ry \<in> {- pi, - (pi / 2), 0, pi / 2, pi}"
    by (rule quarter_multiple [OF sn(2), of 1]) (use rg(2) in simp_all)
  then consider "ry = - pi" | "ry = - (pi / 2)" | "ry = 0" | "ry = pi / 2" | "ry = pi"
    by auto
  then have y: "ry = 0"
  proof cases
    case 1
    then show ?thesis using rg(2) pi_gt_zero by simp
  next
    case 2
    then show ?thesis using m13 by simp
  next
    case 3
    then show ?thesis .
  next
    case 4
    show ?thesis using m13 unfolding 4 by simp
  next
    case 5
    then show ?thesis using rg(2) pi_gt_zero by simp
  qed
  have "rz \<in> {- pi, - (pi / 2), 0, pi / 2, pi}"
    by (rule quarter_multiple [OF sn(3), of 2]) (use rg(3) in simp_all)
  then have z: "rz = 0" by (rule cos_quarter) (use m11 in \<open>simp add: y\<close>)
  have "rx \<in> {- pi, - (pi / 2), 0, pi / 2, pi}"
    by (rule quarter_multiple [OF sn(1), of 2]) (use rg(1) in simp_all)
  then have x: "rx = 0" by (rule cos_quarter) (use m33 in \<open>simp add: y\<close>)
  show ?thesis by (simp add: r x y z)
qed

lemma solved_placement:
  "rest_refs F \<Longrightarrow> map pose F = map pose R0 \<Longrightarrow>
   list_all (\<lambda>r. case r of None \<Rightarrow> True | Some m \<Rightarrow> rotation m = (0, 0, 0)) R0 \<Longrightarrow>
   map placement F = map placement R0"
proof (induction F arbitrary: R0)
  case Nil
  then show ?case by simp
next
  case (Cons f F)
  from Cons.prems(2) obtain r0 R0' where R0: "R0 = r0 # R0'" by (cases R0) simp_all
  have tl: "map placement F = map placement R0'"
    using Cons.prems unfolding R0 by (intro Cons.IH) (simp_all add: rest_refs_def)
  have hd: "placement f = placement r0"
  proof (cases f)
    case None
    then show ?thesis using Cons.prems(2) unfolding R0 by (cases r0) (simp_all add: pose_def placement_def)
  next
    case (Some m)
    then obtain m0 where r0: "r0 = Some m0"
      using Cons.prems(2) unfolding R0 by (cases r0) (simp_all add: pose_def)
    have rm: "rest_mesh m" using Cons.prems(1) Some by (simp add: rest_refs_def)
    have z: "rotation m0 = (0, 0, 0)" using Cons.prems(3) unfolding R0 r0 by simp
    have eq: "position m = position m0" "euler_matrix (rotation m) = euler_matrix (rotation m0)"
      using Cons.prems(2) unfolding R0 r0 Some by (simp_all add: pose_def)
    have "rotation m = (0, 0, 0)"
      by (rule identity_triple [OF rm]) (simp add: eq(2) z)
    then show ?thesis using eq(1) z by (simp add: Some r0 placement_def)
  qed
  show ?case using hd tl by (simp add: R0)
qed

lemma solved_initial:
  "list_all (\<lambda>r. case r of None \<Rightarrow> True | Some m \<Rightarrow> rotation m = (0, 0, 0)) (cubieRefs initial_state)"
  by (simp add: initial_state_def initialCubies_def loop_range_def push_cubie_def)

lemma restore_from:
  assumes d: "0 < delta" and sp1: "0 < sp1" and sp2: "0 < sp2"
    and idle: "\<not> isAnimating s" "currentMove s = None" "pivotRef s \<noteq> None" "moveQueue s = []"
    and rest: "rest_refs (cubieRefs s)"
  shows "\<exists>n. \<not> isAnimating (frames n delta (addMoves (inverse_moves ms) sp2 (addMoves ms sp1 s)))
            \<and> moveQueue (frames n delta (addMoves (inverse_moves ms) sp2 (addMoves ms sp1 s))) = []
            \<and> onMoveComplete_calls (frames n delta (addMoves (inverse_moves ms) sp2 (addMoves ms sp1 s)))
                 = onMoveComplete_calls s @ ms @ inverse_moves ms
            \<and> map pose (cubieRefs (frames n delta (addMoves (inverse_moves ms) sp2 (addMoves ms sp1 s))))
                 = map pose (cubieRefs s)
            \<and> rest_refs (cubieRefs (frames n delta (addMoves (inverse_moves ms) sp2 (addMoves ms sp1 s))))"
proof -
  let ?qs = "map (\<lambda>mv. \<lparr>qmove = mv, speed = sp1\<rparr>) ms @
             map (\<lambda>mv. \<lparr>qmove = mv, speed = sp2\<rparr>) (inverse_moves ms)"
  have a: "addMoves (inverse_moves ms) sp2 (addMoves ms sp1 s) = s\<lparr>moveQueue := ?qs\<rparr>"
    using idle(4) by (simp add: addMoves_queue)
  have sp: "list_all (\<lambda>q. 0 < speed q) ?qs"
    using sp1 sp2 by (auto simp: list_all_iff)
  have m: "map qmove ?qs = ms @ inverse_moves ms"
    by (simp add: comp_def)
  from settle_play [OF d idle rest sp] obtain n where
    n: "\<not> isAnimating (frames n delta (s\<lparr>moveQueue := ?qs\<rparr>))"
       "moveQueue (frames n delta (s\<lparr>moveQueue := ?qs\<rparr>)) = []"
       "onMoveComplete_calls (frames n delta (s\<lparr>moveQueue := ?qs\<rparr>))
          = onMoveComplete_calls s @ ms @ inverse_moves ms"
       "cubieRefs (frames n delta (s\<lparr>moveQueue := ?qs\<rparr>))
          = fold turn_all (ms @ inverse_moves ms) (cubieRefs s)"
    unfolding m by blast
  show ?thesis
    unfolding a using n(1,2,3) fold_turn_inverse [OF rest, of ms]
      rest_refs_fold [OF rest, of "ms @ inverse_moves ms"]
    by (intro exI [of _ n]) (simp add: n(4))
qed

text \<open>
  After any list of moves from the solved cube has completed, the machine is idle and
  every mesh is at rest: the states the second part of the next theorem speaks of include
  every state the model reaches between moves.
\<close>

lemma settled_after_moves:
  assumes "0 < delta" and "0 < sp0"
  shows "\<exists>k. \<not> isAnimating (frames k delta (addMoves ms0 sp0 initial_state))
            \<and> currentMove (frames k delta (addMoves ms0 sp0 initial_state)) = None
            \<and> pivotRef (frames k delta (addMoves ms0 sp0 initial_state)) \<noteq> None
            \<and> moveQueue (frames k delta (addMoves ms0 sp0 initial_state)) = []
            \<and> onMoveComplete_calls (frames k delta (addMoves ms0 sp0 initial_state)) = ms0
            \<and> rest_refs (cubieRefs (frames k delta (addMoves ms0 sp0 initial_state)))"
proof -
  let ?q0 = "map (\<lambda>mv. \<lparr>qmove = mv, speed = sp0\<rparr>) ms0"
  have a0: "addMoves ms0 sp0 initial_state = initial_state\<lparr>moveQueue := ?q0\<rparr>"
    by (simp add: addMoves_queue idle_initial(4))
  have s0: "list_all (\<lambda>q. 0 < speed q) ?q0" using assms(2) by (auto simp: list_all_iff)
  from settle_play [OF assms(1) idle_initial(1-4) rest_initial s0] obtain k where
    k: "\<not> isAnimating (frames k delta (addMoves ms0 sp0 initial_state))"
       "currentMove (frames k delta (addMoves ms0 sp0 initial_state)) = None"
       "pivotRef (frames k delta (addMoves ms0 sp0 initial_state)) \<noteq> None"
       "moveQueue (frames k delta (addMoves ms0 sp0 initial_state)) = []"
       "onMoveComplete_calls (frames k delta (addMoves ms0 sp0 initial_state)) = ms0"
       "cubieRefs (frames k delta (addMoves ms0 sp0 initial_state))
          = fold turn_all ms0 (cubieRefs initial_state)"
    unfolding a0 by (auto simp: idle_initial(5) comp_def)
  have "rest_refs (cubieRefs (frames k delta (addMoves ms0 sp0 initial_state)))"
    unfolding k(6) by (rule rest_refs_fold [OF rest_initial])
  with k(1-5) show ?thesis by blast
qed

text \<open>
  The state \<open>half_turned_right\<close> is idle and at rest. Its meshes have the positions and
  the orientations of the meshes the model holds after the move R twice; the model holds
  the half turn as \<open>pi\<close>.
\<close>

lemma rest_half_turned: "rest_refs (cubieRefs half_turned_right)"
  by (simp add: half_turned_right_def rest_refs_def initial_state_def initialCubies_def
      loop_range_def push_cubie_def rest_mesh_def on_grid_def snap_def CUBE_GAP_def
      round_minus_one snap_rotation_def in_range_def rotations24_def Let_def)

lemma idle_half_turned:
  "\<not> isAnimating half_turned_right" "currentMove half_turned_right = None"
  "pivotRef half_turned_right \<noteq> None" "moveQueue half_turned_right = []"
  by (simp_all add: half_turned_right_def initial_state_def)

lemma half_turned_pose:
  "map pose (fold turn_all [\<lparr>axis = X, slice = 1, direction = Neg1\<rparr>,
                            \<lparr>axis = X, slice = 1, direction = Neg1\<rparr>] (cubieRefs initial_state))
     = map pose (cubieRefs half_turned_right)"
  by (simp add: half_turned_right_def initial_state_def initialCubies_def loop_range_def push_cubie_def
      turn_all_def turn_ref_def in_slice_def world_position_scene epsilon_def
      turn_mesh_eq snap_mesh_def snap_def snap_rotation_def quarter_turn_values CUBE_GAP_def pose_def
      atan2_def clamp_def Let_def round_minus_one)

text \<open>
  C1. With positive frame time and speed multipliers: the moves \<open>ms\<close> followed by
  the reverse-direction sequence in reverse order, enqueued on the solved cube, all
  complete after finitely many frames, in that order, and then every mesh has the
  position and the Euler rotation it had in the solved state. From any idle state whose
  meshes are at rest (every state between moves is one, whichever of \<open>pi\<close> and
  \<open>-pi\<close> its half turns are held as), the sequence and its inverse complete in order
  and return every mesh to the position and the orientation (rotation matrix) it had
  before the sequence. For every token of the notation table the inverse of its move is
  the move of the primed token, so a move followed by its primed counterpart is an
  instance.
\<close>

theorem reset_restores:
  assumes "0 < delta" and "0 < sp1" and "0 < sp2"
  shows "(\<exists>n. \<not> isAnimating
                 (frames n delta (addMoves (inverse_moves ms) sp2 (addMoves ms sp1 initial_state)))
            \<and> moveQueue
                 (frames n delta (addMoves (inverse_moves ms) sp2 (addMoves ms sp1 initial_state))) = []
            \<and> onMoveComplete_calls
                 (frames n delta (addMoves (inverse_moves ms) sp2 (addMoves ms sp1 initial_state)))
                 = ms @ inverse_moves ms
            \<and> map placement (cubieRefs
                 (frames n delta (addMoves (inverse_moves ms) sp2 (addMoves ms sp1 initial_state))))
                 = map placement (cubieRefs initial_state))
       \<and> (\<not> isAnimating s \<and> currentMove s = None \<and> pivotRef s \<noteq> None \<and> moveQueue s = []
            \<and> rest_refs (cubieRefs s) \<longrightarrow>
          (\<exists>n. \<not> isAnimating
                   (frames n delta (addMoves (inverse_moves ms) sp2 (addMoves ms sp1 s)))
              \<and> moveQueue
                   (frames n delta (addMoves (inverse_moves ms) sp2 (addMoves ms sp1 s))) = []
              \<and> onMoveComplete_calls
                   (frames n delta (addMoves (inverse_moves ms) sp2 (addMoves ms sp1 s)))
                   = onMoveComplete_calls s @ ms @ inverse_moves ms
              \<and> map pose (cubieRefs
                   (frames n delta (addMoves (inverse_moves ms) sp2 (addMoves ms sp1 s))))
                   = map pose (cubieRefs s)))
       \<and> map (\<lambda>(t, m). inverse_moves [getMoveFromNotation t]) notation_table
           = map (\<lambda>(t, m). [getMoveFromNotation (t @ [apostrophe])]) notation_table"
proof -
  from restore_from [OF assms idle_initial(1-4) rest_initial, of ms] obtain n where
    n: "\<not> isAnimating
                 (frames n delta (addMoves (inverse_moves ms) sp2 (addMoves ms sp1 initial_state)))"
       "moveQueue
                 (frames n delta (addMoves (inverse_moves ms) sp2 (addMoves ms sp1 initial_state))) = []"
       "onMoveComplete_calls
                 (frames n delta (addMoves (inverse_moves ms) sp2 (addMoves ms sp1 initial_state)))
                 = ms @ inverse_moves ms"
       "map pose (cubieRefs
                 (frames n delta (addMoves (inverse_moves ms) sp2 (addMoves ms sp1 initial_state))))
                 = map pose (cubieRefs initial_state)"
       "rest_refs (cubieRefs
                 (frames n delta (addMoves (inverse_moves ms) sp2 (addMoves ms sp1 initial_state))))"
    by (auto simp: idle_initial(5))
  have "map placement (cubieRefs
                 (frames n delta (addMoves (inverse_moves ms) sp2 (addMoves ms sp1 initial_state))))
                 = map placement (cubieRefs initial_state)"
    by (rule solved_placement [OF n(5) n(4) solved_initial])
  with n(1-3) have c1: "\<exists>n. \<not> isAnimating
                 (frames n delta (addMoves (inverse_moves ms) sp2 (addMoves ms sp1 initial_state)))
            \<and> moveQueue
                 (frames n delta (addMoves (inverse_moves ms) sp2 (addMoves ms sp1 initial_state))) = []
            \<and> onMoveComplete_calls
                 (frames n delta (addMoves (inverse_moves ms) sp2 (addMoves ms sp1 initial_state)))
                 = ms @ inverse_moves ms
            \<and> map placement (cubieRefs
                 (frames n delta (addMoves (inverse_moves ms) sp2 (addMoves ms sp1 initial_state))))
                 = map placement (cubieRefs initial_state)"
    by blast
  have c2: "\<exists>n. \<not> isAnimating
                   (frames n delta (addMoves (inverse_moves ms) sp2 (addMoves ms sp1 s)))
              \<and> moveQueue
                   (frames n delta (addMoves (inverse_moves ms) sp2 (addMoves ms sp1 s))) = []
              \<and> onMoveComplete_calls
                   (frames n delta (addMoves (inverse_moves ms) sp2 (addMoves ms sp1 s)))
                   = onMoveComplete_calls s @ ms @ inverse_moves ms
              \<and> map pose (cubieRefs
                   (frames n delta (addMoves (inverse_moves ms) sp2 (addMoves ms sp1 s))))
                   = map pose (cubieRefs s)"
    if "\<not> isAnimating s" "currentMove s = None" "pivotRef s \<noteq> None" "moveQueue s = []"
       "rest_refs (cubieRefs s)"
    using restore_from [OF assms that, of ms] by blast
  have c3: "map (\<lambda>(t, m). inverse_moves [getMoveFromNotation t]) notation_table
           = map (\<lambda>(t, m). [getMoveFromNotation (t @ [apostrophe])]) notation_table"
    by (simp add: notation_table_def getMoveFromNotation_def apostrophe_def inverse_moves_def
        inverse_move_def)
  show ?thesis using c1 c2 c3 by blast
qed

theorem reset_restores_witness:
  "(0 :: real) < 1 / 60 \<and> (0 :: real) < 6 \<and> (0 :: real) < 3
   \<and> inverse_moves [\<lparr>axis = Y, slice = 1, direction = Neg1\<rparr>, \<lparr>axis = X, slice = 1, direction = Neg1\<rparr>,
                     \<lparr>axis = Z, slice = 1, direction = Neg1\<rparr>]
       = [\<lparr>axis = Z, slice = 1, direction = Pos1\<rparr>, \<lparr>axis = X, slice = 1, direction = Pos1\<rparr>,
          \<lparr>axis = Y, slice = 1, direction = Pos1\<rparr>]
   \<and> (\<exists>n. \<not> isAnimating
              (frames n (1 / 60)
                 (addMoves [\<lparr>axis = Z, slice = 1, direction = Pos1\<rparr>, \<lparr>axis = X, slice = 1, direction = Pos1\<rparr>,
                            \<lparr>axis = Y, slice = 1, direction = Pos1\<rparr>] 3
                    (addMoves [\<lparr>axis = Y, slice = 1, direction = Neg1\<rparr>,
                               \<lparr>axis = X, slice = 1, direction = Neg1\<rparr>,
                               \<lparr>axis = Z, slice = 1, direction = Neg1\<rparr>] 6 initial_state)))
         \<and> onMoveComplete_calls
              (frames n (1 / 60)
                 (addMoves [\<lparr>axis = Z, slice = 1, direction = Pos1\<rparr>, \<lparr>axis = X, slice = 1, direction = Pos1\<rparr>,
                            \<lparr>axis = Y, slice = 1, direction = Pos1\<rparr>] 3
                    (addMoves [\<lparr>axis = Y, slice = 1, direction = Neg1\<rparr>,
                               \<lparr>axis = X, slice = 1, direction = Neg1\<rparr>,
                               \<lparr>axis = Z, slice = 1, direction = Neg1\<rparr>] 6 initial_state)))
              = [\<lparr>axis = Y, slice = 1, direction = Neg1\<rparr>, \<lparr>axis = X, slice = 1, direction = Neg1\<rparr>,
                 \<lparr>axis = Z, slice = 1, direction = Neg1\<rparr>, \<lparr>axis = Z, slice = 1, direction = Pos1\<rparr>,
                 \<lparr>axis = X, slice = 1, direction = Pos1\<rparr>, \<lparr>axis = Y, slice = 1, direction = Pos1\<rparr>]
         \<and> map placement (cubieRefs
              (frames n (1 / 60)
                 (addMoves [\<lparr>axis = Z, slice = 1, direction = Pos1\<rparr>, \<lparr>axis = X, slice = 1, direction = Pos1\<rparr>,
                            \<lparr>axis = Y, slice = 1, direction = Pos1\<rparr>] 3
                    (addMoves [\<lparr>axis = Y, slice = 1, direction = Neg1\<rparr>,
                               \<lparr>axis = X, slice = 1, direction = Neg1\<rparr>,
                               \<lparr>axis = Z, slice = 1, direction = Neg1\<rparr>] 6 initial_state))))
              = map placement (cubieRefs initial_state))
   \<and> \<not> isAnimating half_turned_right \<and> currentMove half_turned_right = None
   \<and> pivotRef half_turned_right \<noteq> None \<and> moveQueue half_turned_right = []
   \<and> rest_refs (cubieRefs half_turned_right)
   \<and> (\<exists>n. \<not> isAnimating
              (frames n (1 / 60)
                 (addMoves [\<lparr>axis = X, slice = 1, direction = Pos1\<rparr>] 3
                    (addMoves [\<lparr>axis = X, slice = 1, direction = Neg1\<rparr>] 6 half_turned_right)))
         \<and> onMoveComplete_calls
              (frames n (1 / 60)
                 (addMoves [\<lparr>axis = X, slice = 1, direction = Pos1\<rparr>] 3
                    (addMoves [\<lparr>axis = X, slice = 1, direction = Neg1\<rparr>] 6 half_turned_right)))
              = [\<lparr>axis = X, slice = 1, direction = Neg1\<rparr>, \<lparr>axis = X, slice = 1, direction = Neg1\<rparr>,
                 \<lparr>axis = X, slice = 1, direction = Neg1\<rparr>, \<lparr>axis = X, slice = 1, direction = Pos1\<rparr>]
         \<and> map pose (cubieRefs
              (frames n (1 / 60)
                 (addMoves [\<lparr>axis = X, slice = 1, direction = Pos1\<rparr>] 3
                    (addMoves [\<lparr>axis = X, slice = 1, direction = Neg1\<rparr>] 6 half_turned_right))))
              = map pose (cubieRefs half_turned_right))"
proof -
  let ?ms = "[\<lparr>axis = Y, slice = 1, direction = Neg1\<rparr>, \<lparr>axis = X, slice = 1, direction = Neg1\<rparr>,
              \<lparr>axis = Z, slice = 1, direction = Neg1\<rparr>]"
  let ?r = "[\<lparr>axis = X, slice = 1, direction = Neg1\<rparr>]"
  have h: "(0 :: real) < 1 / 60" "(0 :: real) < 6" "(0 :: real) < 3" by simp_all
  have i: "inverse_moves ?ms =
         [\<lparr>axis = Z, slice = 1, direction = Pos1\<rparr>, \<lparr>axis = X, slice = 1, direction = Pos1\<rparr>,
          \<lparr>axis = Y, slice = 1, direction = Pos1\<rparr>]"
    by (simp add: inverse_moves_def inverse_move_def)
  have j: "inverse_moves ?r = [\<lparr>axis = X, slice = 1, direction = Pos1\<rparr>]"
    by (simp add: inverse_moves_def inverse_move_def)
  have c: "onMoveComplete_calls half_turned_right
             = [\<lparr>axis = X, slice = 1, direction = Neg1\<rparr>, \<lparr>axis = X, slice = 1, direction = Neg1\<rparr>]"
    by (simp add: half_turned_right_def)
  have g: "\<not> isAnimating half_turned_right \<and> currentMove half_turned_right = None
       \<and> pivotRef half_turned_right \<noteq> None \<and> moveQueue half_turned_right = []
       \<and> rest_refs (cubieRefs half_turned_right)"
    by (simp add: idle_half_turned rest_half_turned)
  from reset_restores [OF h, of ?ms half_turned_right] have a:
    "\<exists>n. \<not> isAnimating
              (frames n (1 / 60) (addMoves (inverse_moves ?ms) 3 (addMoves ?ms 6 initial_state)))
         \<and> onMoveComplete_calls
              (frames n (1 / 60) (addMoves (inverse_moves ?ms) 3 (addMoves ?ms 6 initial_state)))
              = ?ms @ inverse_moves ?ms
         \<and> map placement (cubieRefs
              (frames n (1 / 60) (addMoves (inverse_moves ?ms) 3 (addMoves ?ms 6 initial_state))))
              = map placement (cubieRefs initial_state)"
    by blast
  from reset_restores [OF h, of ?r half_turned_right] g have b:
    "\<exists>n. \<not> isAnimating
              (frames n (1 / 60) (addMoves (inverse_moves ?r) 3 (addMoves ?r 6 half_turned_right)))
         \<and> onMoveComplete_calls
              (frames n (1 / 60) (addMoves (inverse_moves ?r) 3 (addMoves ?r 6 half_turned_right)))
              = onMoveComplete_calls half_turned_right @ ?r @ inverse_moves ?r
         \<and> map pose (cubieRefs
              (frames n (1 / 60) (addMoves (inverse_moves ?r) 3 (addMoves ?r 6 half_turned_right))))
              = map pose (cubieRefs half_turned_right)"
    by blast
  from a have a': "\<exists>n. \<not> isAnimating
              (frames n (1 / 60)
                 (addMoves [\<lparr>axis = Z, slice = 1, direction = Pos1\<rparr>, \<lparr>axis = X, slice = 1, direction = Pos1\<rparr>,
                            \<lparr>axis = Y, slice = 1, direction = Pos1\<rparr>] 3 (addMoves ?ms 6 initial_state)))
         \<and> onMoveComplete_calls
              (frames n (1 / 60)
                 (addMoves [\<lparr>axis = Z, slice = 1, direction = Pos1\<rparr>, \<lparr>axis = X, slice = 1, direction = Pos1\<rparr>,
                            \<lparr>axis = Y, slice = 1, direction = Pos1\<rparr>] 3 (addMoves ?ms 6 initial_state)))
              = [\<lparr>axis = Y, slice = 1, direction = Neg1\<rparr>, \<lparr>axis = X, slice = 1, direction = Neg1\<rparr>,
                 \<lparr>axis = Z, slice = 1, direction = Neg1\<rparr>, \<lparr>axis = Z, slice = 1, direction = Pos1\<rparr>,
                 \<lparr>axis = X, slice = 1, direction = Pos1\<rparr>, \<lparr>axis = Y, slice = 1, direction = Pos1\<rparr>]
         \<and> map placement (cubieRefs
              (frames n (1 / 60)
                 (addMoves [\<lparr>axis = Z, slice = 1, direction = Pos1\<rparr>, \<lparr>axis = X, slice = 1, direction = Pos1\<rparr>,
                            \<lparr>axis = Y, slice = 1, direction = Pos1\<rparr>] 3 (addMoves ?ms 6 initial_state))))
              = map placement (cubieRefs initial_state)"
    unfolding i by simp
  from b have b': "\<exists>n. \<not> isAnimating
              (frames n (1 / 60)
                 (addMoves [\<lparr>axis = X, slice = 1, direction = Pos1\<rparr>] 3 (addMoves ?r 6 half_turned_right)))
         \<and> onMoveComplete_calls
              (frames n (1 / 60)
                 (addMoves [\<lparr>axis = X, slice = 1, direction = Pos1\<rparr>] 3 (addMoves ?r 6 half_turned_right)))
              = [\<lparr>axis = X, slice = 1, direction = Neg1\<rparr>, \<lparr>axis = X, slice = 1, direction = Neg1\<rparr>,
                 \<lparr>axis = X, slice = 1, direction = Neg1\<rparr>, \<lparr>axis = X, slice = 1, direction = Pos1\<rparr>]
         \<and> map pose (cubieRefs
              (frames n (1 / 60)
                 (addMoves [\<lparr>axis = X, slice = 1, direction = Pos1\<rparr>] 3 (addMoves ?r 6 half_turned_right))))
              = map pose (cubieRefs half_turned_right)"
    unfolding j c by simp
  show ?thesis
    using h i g a' b' by (intro conjI) simp_all
qed

end
